theory Spec2Isabelle
  imports Main "HOL-Library.AList" "HOL-Library.Multiset"
begin

section \<open>The CDP connection of src/connection.ts\<close>

text \<open>
  One \<open>Connection\<close> multiplexes many \<open>CDPSession\<close> objects over one transport.
  Session objects are shared: the registry of the connection and the callers of
  \<open>createSession\<close> hold references to the same object. The model therefore keeps every
  session object ever constructed in a heap (a list, the reference is the index) and the
  registry maps session identifiers to references.

  Promises are modelled by the calls made on them: every call of a \<open>resolve\<close> or
  \<open>reject\<close> function is appended to the log \<open>settled\<close>; the state of a promise is
  the first entry of the log that names it (a JavaScript promise ignores later calls).
\<close>

subsection \<open>JavaScript values\<close>

type_synonym sref = nat
type_synonym pid = nat
type_synonym token = nat
type_synonym handler = nat

text \<open>
  A JavaScript number is an IEEE double. Integers are exact up to \<open>2 ^ 53\<close>; there
  \<open>n + 1\<close> is not representable and rounds back to \<open>2 ^ 53\<close>. The counter of the
  connection starts at 0 and is only ever incremented, so it stays in this range.
\<close>

definition js_increment :: "int \<Rightarrow> int" where
  "js_increment n = (if n < 2 ^ 53 then n + 1 else n)"

text \<open>A template literal prints an absent (undefined) string field as \<open>undefined\<close>.\<close>

definition js_string :: "string option \<Rightarrow> string" where
  "js_string v = (case v of None \<Rightarrow> ''undefined'' | Some x \<Rightarrow> x)"

text \<open>\<open>x || ''\<close> on an optional string: undefined and the empty string are falsy.\<close>

definition or_empty :: "string option \<Rightarrow> string" where
  "or_empty v = (case v of None \<Rightarrow> [] | Some x \<Rightarrow> x)"

text \<open>Truthiness of an optional number: undefined and 0 are falsy.\<close>

definition truthy :: "int option \<Rightarrow> bool" where
  "truthy v = (case v of None \<Rightarrow> False | Some i \<Rightarrow> i \<noteq> 0)"

datatype 'j jsvalue = Undefined | Null | Value 'j

definition of_field :: "'j option \<Rightarrow> 'j jsvalue" where
  "of_field v = (case v of None \<Rightarrow> Undefined | Some x \<Rightarrow> Value x)"

text \<open>
  The parameter object of a command: \<open>params: object | undefined = {}\<close> replaces an
  absent argument by the empty object.
\<close>

datatype 'j params = EmptyObject | Params 'j

definition default_params :: "'j option \<Rightarrow> 'j params" where
  "default_params v = (case v of None \<Rightarrow> EmptyObject | Some x \<Rightarrow> Params x)"

text \<open>
  An \<open>Error\<close> object that ends up as the reason of a rejected promise: its identity
  (the object created by one \<open>new Error\<close>, which carries the stack of its call site)
  and its message. What a call throws is a value of \<open>thrown\<close>; the identity of a
  thrown \<open>Error\<close> is not tracked. \<open>UnhandledErrorEvent\<close> is what
  \<open>EventEmitter.emit\<close> throws for the event name \<open>error\<close> when nobody listens to
  it, \<open>HandlerThrew\<close> is whatever a subscriber's handler throws, \<open>StringifyThrew\<close>
  what \<open>JSON.stringify\<close> throws on a command it cannot serialise (a circular parameter
  object, a BigInt), \<open>TransportThrew\<close> what \<open>send\<close> of the transport throws.
\<close>

datatype js_error = JsError (err_token: token) (err_message: string)

datatype thrown =
  Thrown string | UnhandledErrorEvent | HandlerThrew | StringifyThrew | TransportThrew

datatype 'j outcome = Resolve "'j jsvalue" | Reject js_error

subsection \<open>A JavaScript Map: insertion-ordered, one entry per key\<close>

definition Map_get :: "('k \<times> 'v) list \<Rightarrow> 'k \<Rightarrow> 'v option" where
  "Map_get m k = map_of m k"

definition Map_has :: "('k \<times> 'v) list \<Rightarrow> 'k \<Rightarrow> bool" where
  "Map_has m k = (map_of m k \<noteq> None)"

definition Map_set :: "('k \<times> 'v) list \<Rightarrow> 'k \<Rightarrow> 'v \<Rightarrow> ('k \<times> 'v) list" where
  "Map_set m k v = AList.update k v m"

definition Map_delete :: "('k \<times> 'v) list \<Rightarrow> 'k \<Rightarrow> ('k \<times> 'v) list" where
  "Map_delete m k = AList.delete k m"

definition Map_values :: "('k \<times> 'v) list \<Rightarrow> 'v list" where
  "Map_values m = map snd m"

subsection \<open>Wire data and objects\<close>

record 'j ProtocolCommand =
  cmd_id :: int
  cmd_method :: string
  cmd_params :: "'j params"
  cmd_sessionId :: "string option"

record 'j ProtocolError =
  pe_message :: string
  pe_data :: 'j

record 'j ProtocolResponse =
  msg_id :: "int option"
  msg_method :: "string option"
  msg_params :: "'j option"
  msg_result :: "'j option"
  msg_error :: "'j ProtocolError option"
  msg_sessionId :: "string option"

text \<open>
  \<open>resolve\<close> and \<open>reject\<close> of a callback are the two functions of one promise,
  \<open>cb_promise\<close>; \<open>cb_from\<close> is the \<open>Error\<close> created when the command was sent.
\<close>

record ProtocolCallback =
  cb_promise :: pid
  cb_from :: token
  cb_method :: string

datatype event_name = EvMethod "string option" | Disconnected

text \<open>
  There is one connection, so the back-reference \<open>_connection\<close> of a session is either
  that connection (\<open>True\<close>) or null (\<open>False\<close>). \<open>listeners\<close> is the part of the
  inherited \<open>EventEmitter\<close> that \<open>emit\<close> reads: the handlers in registration order.
\<close>

record CDPSession =
  connection :: bool
  callbacks :: "(int \<times> ProtocolCallback) list"
  sessionId :: string
  listeners :: "(event_name \<times> handler) list"

record 'j system =
  lastId :: int
  closed :: bool
  sessions :: "(string \<times> sref) list"
  browserSession :: sref
  heap :: "CDPSession list"
  transport_handlers :: bool
  transport_sent :: "'j ProtocolCommand list"
  transport_closes :: nat
  issued :: "int list"
  promises :: nat
  errors :: nat
  settled :: "(pid \<times> 'j outcome) list"
  delivered :: "(sref \<times> handler \<times> event_name \<times> 'j option) list"

text \<open>
  \<open>issued\<close> records the identifiers that \<open>++this._lastId\<close> has produced, in the
  order of the calls of \<open>_send\<close>; \<open>transport_sent\<close> the commands that \<open>send\<close>
  of the transport has accepted; \<open>delivered\<close> the calls of handlers.

  What the code cannot decide is the environment of a run: the text that
  \<open>JSON.stringify\<close> gives for the error object of a reply, whether it throws on a
  command, whether \<open>send\<close> of the transport throws in the \<open>k\<close>-th call of
  \<open>_send\<close>, and whether the \<open>k\<close>-th call of a handler throws (calls counted from 0
  over the whole run, so that every pattern of failures is some environment).
\<close>

record 'j environment =
  stringify_error :: "'j ProtocolError \<Rightarrow> string"
  stringify_throws :: "'j ProtocolCommand \<Rightarrow> bool"
  transport_throws :: "nat \<Rightarrow> bool"
  handler_throws :: "nat \<Rightarrow> bool"

definition quiet_env :: "'j environment" where
  "quiet_env =
     \<lparr>stringify_error = (\<lambda>e. []), stringify_throws = (\<lambda>m. False),
      transport_throws = (\<lambda>k. False), handler_throws = (\<lambda>k. False)\<rparr>"

definition quiet :: "'j environment \<Rightarrow> bool" where
  "quiet env \<longleftrightarrow> (\<forall>k. \<not> handler_throws env k)"

subsection \<open>Promises\<close>

definition settle_count :: "'j system \<Rightarrow> pid \<Rightarrow> nat" where
  "settle_count s p = length (filter (\<lambda>e. fst e = p) (settled s))"

datatype 'j pstate = Pending | Fulfilled "'j jsvalue" | Rejected js_error

text \<open>
  \<open>Plain p\<close> is the promise created by \<open>sendOrDie\<close>; \<open>CatchNull p\<close> is
  \<open>p.catch(e => null)\<close>, the promise that \<open>send\<close> returns.
\<close>

datatype promise = Plain pid | CatchNull pid

definition first_outcome :: "'j system \<Rightarrow> pid \<Rightarrow> 'j outcome option" where
  "first_outcome s p = map_of (settled s) p"

fun promise_state :: "'j system \<Rightarrow> promise \<Rightarrow> 'j pstate" where
  "promise_state s (Plain p) =
     (case first_outcome s p of
        None \<Rightarrow> Pending
      | Some (Resolve v) \<Rightarrow> Fulfilled v
      | Some (Reject e) \<Rightarrow> Rejected e)"
| "promise_state s (CatchNull p) =
     (case first_outcome s p of
        None \<Rightarrow> Pending
      | Some (Resolve v) \<Rightarrow> Fulfilled v
      | Some (Reject e) \<Rightarrow> Fulfilled Null)"

subsection \<open>EventEmitter.emit\<close>

definition subscribers :: "CDPSession \<Rightarrow> event_name \<Rightarrow> handler list" where
  "subscribers this name = map snd (filter (\<lambda>l. fst l = name) (listeners this))"

text \<open>
  \<open>CDPSession\<close> inherits \<open>emit\<close> and \<open>on\<close> from the \<open>EventEmitter\<close> of Node.
  \<open>emit\<close> calls the handlers registered under the name, in registration order, with
  the arguments. A handler is opaque. When one throws, \<open>emit\<close> throws and the later
  handlers are not called; handlers are taken not to call back into the connection. The
  event name \<open>error\<close> without a handler makes \<open>emit\<close> throw.

  \<open>call_handlers throws k hs\<close>: the handlers of \<open>hs\<close> that are called when \<open>k\<close>
  calls of handlers have been made before, and whether the last of them threw.
\<close>

fun call_handlers :: "(nat \<Rightarrow> bool) \<Rightarrow> nat \<Rightarrow> handler list \<Rightarrow> handler list \<times> bool" where
  "call_handlers throws k [] = ([], False)"
| "call_handlers throws k (h # hs) =
     (if throws k then ([h], True)
      else (let (cs, t) = call_handlers throws (Suc k) hs in (h # cs, t)))"

definition called :: "'j environment \<Rightarrow> 'j system \<Rightarrow> handler list \<Rightarrow> handler list" where
  "called env s hs = fst (call_handlers (handler_throws env) (length (delivered s)) hs)"

definition emit ::
  "'j environment \<Rightarrow> sref \<Rightarrow> event_name \<Rightarrow> 'j option \<Rightarrow> 'j system \<Rightarrow> thrown option \<times> 'j system" where
  "emit env r name args s =
     (let hs = subscribers (heap s ! r) name in
      if name = EvMethod (Some ''error'') \<and> hs = [] then (Some UnhandledErrorEvent, s)
      else (let (cs, t) = call_handlers (handler_throws env) (length (delivered s)) hs
            in (if t then Some HandlerThrew else None,
                s\<lparr>delivered := delivered s @ map (\<lambda>h. (r, h, name, args)) cs\<rparr>)))"

definition EventEmitter_on :: "sref \<Rightarrow> event_name \<Rightarrow> handler \<Rightarrow> 'j system \<Rightarrow> 'j system" where
  "EventEmitter_on r name h s =
     (let this = heap s ! r in
      s\<lparr>heap := (heap s)[r := this\<lparr>listeners := listeners this @ [(name, h)]\<rparr>]\<rparr>)"

subsection \<open>Connection\<close>

text \<open>
  The constructors. The root session is object 0, registered under the empty identifier.
  \<^verbatim>\<open>
  constructor(transport: Transport) {
    super();
    this._lastId = 0;
    this._transport = transport;
    this._transport.onmessage = this._onMessage.bind(this);
    this._transport.onclose = this._onTransportClose.bind(this);
    this._sessions = new Map();
    this._closed = false;
    this._browserSession = new CDPSession(this, '');
    this._sessions.set('', this._browserSession);
  }

  constructor(connection: Connection, sessionId: string) {
    super();
    this._callbacks = new Map();
    this._connection = connection;
    this._sessionId = sessionId;
  }
  \<close>
\<close>

definition new_CDPSession :: "string \<Rightarrow> CDPSession" where
  "new_CDPSession sid = \<lparr>connection = True, callbacks = [], sessionId = sid, listeners = []\<rparr>"

definition new_Connection :: "'j system" where
  "new_Connection =
     \<lparr>lastId = 0, closed = False, sessions = [([], 0)], browserSession = 0,
      heap = [new_CDPSession []], transport_handlers = True, transport_sent = [],
      transport_closes = 0, issued = [], promises = 0, errors = 0, settled = [],
      delivered = []\<rparr>"

definition Connection_session :: "'j system \<Rightarrow> string \<Rightarrow> sref option" where
  "Connection_session s sid = Map_get (sessions s) sid"

text \<open>
  \<^verbatim>\<open>
  session(sessionId: string): CDPSession {
    return this._sessions.get(sessionId);
  }

  _send(method: string, params: object | undefined = {}, sessionId: string): number {
    const id = ++this._lastId;
    const message: ProtocolCommand = { id, method, params };
    if (sessionId)
      message.sessionId = sessionId;
    const messageString = JSON.stringify(message);
    this._transport.send(messageString);
    return id;
  }

  createSession(sessionId: Protocol.Target.SessionID): CDPSession {
    const session = new CDPSession(this, sessionId);
    this._sessions.set(sessionId, session);
    return session;
  }
  \<close>
  The session identifier is left out of the command when it is falsy. \<open>_send\<close> throws
  what \<open>JSON.stringify\<close> or \<open>send\<close> of the transport throws, in both cases after
  the counter has been incremented. (The calls of the debug logger are left out here and
  in \<open>_onMessage\<close>.)
\<close>

definition Connection_send ::
  "'j environment \<Rightarrow> string \<Rightarrow> 'j params \<Rightarrow> string \<Rightarrow> 'j system \<Rightarrow> (thrown + int) \<times> 'j system" where
  "Connection_send env method ps sid s =
     (let i = js_increment (lastId s);
          message = \<lparr>cmd_id = i, cmd_method = method, cmd_params = ps,
                     cmd_sessionId = (if sid \<noteq> [] then Some sid else None)\<rparr>;
          s1 = s\<lparr>lastId := i, issued := issued s @ [i]\<rparr>
      in if stringify_throws env message then (Inl StringifyThrew, s1)
         else if transport_throws env (length (issued s)) then (Inl TransportThrew, s1)
         else (Inr i, s1\<lparr>transport_sent := transport_sent s1 @ [message]\<rparr>))"

definition Connection_createSession :: "string \<Rightarrow> 'j system \<Rightarrow> sref \<times> 'j system" where
  "Connection_createSession sid s =
     (let session = length (heap s) in
      (session, s\<lparr>heap := heap s @ [new_CDPSession sid],
                  sessions := Map_set (sessions s) sid session\<rparr>))"

subsection \<open>CDPSession\<close>

text \<open>
  \<^verbatim>\<open>
  isClosed(): boolean {
    return !this._connection;
  }

  send(method: string, params: object | undefined = {}): Promise<object | null> {
    return this.sendOrDie(method, params).catch(e => null);
  }

  sendOrDie(method: string, params: object | undefined = {}): Promise<object | null> {
    if (!this._connection)
      return Promise.reject(new Error(`Protocol error (${method}): Session closed. Most likely the target has been closed.`));
    const id = this._connection._send(method, params, this._sessionId);
    return new Promise((resolve, reject) => {
      this._callbacks.set(id, { resolve, reject, from: new Error(), method });
    });
  }
  \<close>
  Each call of \<open>sendOrDie\<close> that returns creates one promise and one \<open>Error\<close>;
  they are numbered in the order of their creation, \<open>promises\<close> and \<open>errors\<close>
  count them. The call of \<open>_send\<close> stands before the promise is constructed: when it
  throws, \<open>sendOrDie\<close> throws and neither a promise nor a callback exists.
\<close>

definition CDPSession_isClosed :: "'j system \<Rightarrow> sref \<Rightarrow> bool" where
  "CDPSession_isClosed s r = (\<not> connection (heap s ! r))"

definition CDPSession_sendOrDie ::
  "'j environment \<Rightarrow> sref \<Rightarrow> string \<Rightarrow> 'j option \<Rightarrow> 'j system \<Rightarrow> (thrown + pid) \<times> 'j system" where
  "CDPSession_sendOrDie env r method ps s =
     (let this = heap s ! r in
      if \<not> connection this then
        (Inr (promises s),
         s\<lparr>promises := promises s + 1, errors := errors s + 1,
           settled := settled s @
             [(promises s, Reject (JsError (errors s)
                (''Protocol error ('' @ method @
                 ''): Session closed. Most likely the target has been closed.'')))]\<rparr>)
      else
        (case Connection_send env method (default_params ps) (sessionId this) s of
           (Inl e, s1) \<Rightarrow> (Inl e, s1)
         | (Inr i, s1) \<Rightarrow>
             (let callback = \<lparr>cb_promise = promises s1, cb_from = errors s1, cb_method = method\<rparr>
              in (Inr (promises s1),
                  s1\<lparr>promises := promises s1 + 1, errors := errors s1 + 1,
                     heap := (heap s1)[r := this\<lparr>callbacks := Map_set (callbacks this) i callback\<rparr>]\<rparr>))))"

text \<open>
  \<open>send\<close> attaches \<open>catch\<close> to the promise that \<open>sendOrDie\<close> returns; when
  \<open>sendOrDie\<close> throws there is no promise and \<open>send\<close> throws the same.
\<close>

definition CDPSession_send ::
  "'j environment \<Rightarrow> sref \<Rightarrow> string \<Rightarrow> 'j option \<Rightarrow> 'j system \<Rightarrow> (thrown + promise) \<times> 'j system" where
  "CDPSession_send env r method ps s =
     (case CDPSession_sendOrDie env r method ps s of
        (Inl e, s1) \<Rightarrow> (Inl e, s1)
      | (Inr p, s1) \<Rightarrow> (Inr (CatchNull p), s1))"

text \<open>
  The test \<open>object.id && this._callbacks.has(object.id)\<close> followed by \<open>get\<close>:
  the identifier of the message when it is truthy and a callback is stored under it,
  with that callback.
\<close>

definition matching :: "(int \<times> ProtocolCallback) list \<Rightarrow> int option \<Rightarrow> (int \<times> ProtocolCallback) option" where
  "matching cbs v =
     (case v of
        None \<Rightarrow> None
      | Some i \<Rightarrow> if i \<noteq> 0 then map_option (Pair i) (Map_get cbs i) else None)"

text \<open>
  \<^verbatim>\<open>
  _onMessage(object: ProtocolResponse) {
    if (object.id && this._callbacks.has(object.id)) {
      const callback = this._callbacks.get(object.id);
      this._callbacks.delete(object.id);
      if (object.error) {
        callback.from.message = `Protocol error (${object.method}): ${object.error.message}`;
        if (object.error)
          callback.from.message += ` - ${JSON.stringify(object.error)}`;
        callback.reject(callback.from);
      } else {
        callback.resolve(object.result);
      }
    } else {
      if (object.id)
        throw new Error();
      this.emit(object.method, object.params);
    }
  }
  \<close>
  The result is what the call throws, if anything.
\<close>

definition CDPSession_onMessage ::
  "'j environment \<Rightarrow> sref \<Rightarrow> 'j ProtocolResponse \<Rightarrow> 'j system \<Rightarrow> thrown option \<times> 'j system" where
  "CDPSession_onMessage env r object s =
     (let this = heap s ! r in
      case matching (callbacks this) (msg_id object) of
        Some (i, callback) \<Rightarrow>
          (let s1 = s\<lparr>heap := (heap s)[r := this\<lparr>callbacks := Map_delete (callbacks this) i\<rparr>]\<rparr>
           in case msg_error object of
                Some err \<Rightarrow>
                  (None, s1\<lparr>settled := settled s1 @
                     [(cb_promise callback, Reject (JsError (cb_from callback)
                        (''Protocol error ('' @ js_string (msg_method object) @ ''): '' @
                         pe_message err @ '' - '' @ stringify_error env err)))]\<rparr>)
              | None \<Rightarrow>
                  (None, s1\<lparr>settled := settled s1 @
                     [(cb_promise callback, Resolve (of_field (msg_result object)))]\<rparr>))
      | None \<Rightarrow>
          if truthy (msg_id object) then (Some (Thrown []), s)
          else emit env r (EvMethod (msg_method object)) (msg_params object) s)"

text \<open>
  \<^verbatim>\<open>
  _onClose() {
    for (const callback of this._callbacks.values()) {
      callback.from.message = `Protocol error (${callback.method}): Target closed.`;
      callback.reject(callback.from);
    }
    this._callbacks.clear();
    this._connection = null;
    this.emit(SessionEvents.Disconnected);
  }
  \<close>
\<close>

definition CDPSession_onClose ::
  "'j environment \<Rightarrow> sref \<Rightarrow> 'j system \<Rightarrow> thrown option \<times> 'j system" where
  "CDPSession_onClose env r s =
     (let this = heap s ! r;
          s1 = s\<lparr>settled := settled s @
                 map (\<lambda>(i, callback). (cb_promise callback, Reject (JsError (cb_from callback)
                        (''Protocol error ('' @ cb_method callback @ ''): Target closed.''))))
                   (callbacks this)\<rparr>;
          s2 = s1\<lparr>heap := (heap s1)[r := this\<lparr>callbacks := [], connection := False\<rparr>]\<rparr>
      in emit env r Disconnected None s2)"

subsection \<open>Connection, continued\<close>

text \<open>
  \<^verbatim>\<open>
  async _onMessage(message: string) {
    const object = JSON.parse(message);

    const session = this._sessions.get(object.sessionId || '');
    if (session)
      session._onMessage(object);
    else
      throw new Error(`Unknown session id: ${object.sessionId}`)
  }

  _onTransportClose() {
    if (this._closed)
      return;
    this._closed = true;
    this._transport.onmessage = null;
    this._transport.onclose = null;
    for (const session of this._sessions.values())
      session._onClose();
    this._sessions.clear();
  }

  dispose() {
    this._onTransportClose();
    this._transport.close();
  }

  _disposeSession(session: CDPSession) {
    session._onClose();
    this._sessions.delete(session.sessionId());
  }
  \<close>
  \<open>_onMessage\<close> of the connection is an async function: what it throws rejects the
  promise it returns, which is the result here. The message is taken after
  \<open>JSON.parse\<close>. In the other methods a throw ends the method where it occurs: the
  statements after it are not executed. \<open>close\<close> of the transport, the last statement
  of \<open>dispose\<close>, is taken to return.
\<close>

definition Connection_onMessage ::
  "'j environment \<Rightarrow> 'j ProtocolResponse \<Rightarrow> 'j system \<Rightarrow> thrown option \<times> 'j system" where
  "Connection_onMessage env object s =
     (case Map_get (sessions s) (or_empty (msg_sessionId object)) of
        Some session \<Rightarrow> CDPSession_onMessage env session object s
      | None \<Rightarrow> (Some (Thrown (''Unknown session id: '' @ js_string (msg_sessionId object))), s))"

text \<open>
  The loop of \<open>_onTransportClose\<close> over the registered sessions: it ends with the first
  \<open>_onClose\<close> that throws, and the sessions after that one are not closed.
\<close>

fun close_sessions :: "'j environment \<Rightarrow> sref list \<Rightarrow> 'j system \<Rightarrow> thrown option \<times> 'j system" where
  "close_sessions env [] s = (None, s)"
| "close_sessions env (r # rs) s =
     (case CDPSession_onClose env r s of
        (Some e, s1) \<Rightarrow> (Some e, s1)
      | (None, s1) \<Rightarrow> close_sessions env rs s1)"

definition Connection_onTransportClose :: "'j environment \<Rightarrow> 'j system \<Rightarrow> thrown option \<times> 'j system" where
  "Connection_onTransportClose env s =
     (if closed s then (None, s)
      else (let s1 = s\<lparr>closed := True, transport_handlers := False\<rparr> in
            case close_sessions env (Map_values (sessions s1)) s1 of
              (Some e, s2) \<Rightarrow> (Some e, s2)
            | (None, s2) \<Rightarrow> (None, s2\<lparr>sessions := []\<rparr>)))"

definition Connection_dispose :: "'j environment \<Rightarrow> 'j system \<Rightarrow> thrown option \<times> 'j system" where
  "Connection_dispose env s =
     (case Connection_onTransportClose env s of
        (Some e, s1) \<Rightarrow> (Some e, s1)
      | (None, s1) \<Rightarrow> (None, s1\<lparr>transport_closes := transport_closes s1 + 1\<rparr>))"

definition Connection_disposeSession :: "'j environment \<Rightarrow> sref \<Rightarrow> 'j system \<Rightarrow> thrown option \<times> 'j system" where
  "Connection_disposeSession env session s =
     (case CDPSession_onClose env session s of
        (Some e, s1) \<Rightarrow> (Some e, s1)
      | (None, s1) \<Rightarrow>
          (None, s1\<lparr>sessions := Map_delete (sessions s1) (sessionId (heap s1 ! session))\<rparr>))"

text \<open>
  \<^verbatim>\<open>
  dispose() {
    if (this._connection)
      this._connection._disposeSession(this);
  }

  async detach() {
    if (!this._connection)
      throw new Error(`Session already detached. Most likely the target has been closed.`);
    await this._connection._send('Target.detachFromTarget', {}, this._sessionId);
  }
  \<close>
\<close>

definition CDPSession_dispose :: "'j environment \<Rightarrow> sref \<Rightarrow> 'j system \<Rightarrow> thrown option \<times> 'j system" where
  "CDPSession_dispose env r s =
     (if connection (heap s ! r) then Connection_disposeSession env r s else (None, s))"

text \<open>\<open>detach\<close> is an async function: what it throws rejects the promise it returns.\<close>

definition CDPSession_detach :: "'j environment \<Rightarrow> sref \<Rightarrow> 'j system \<Rightarrow> thrown option \<times> 'j system" where
  "CDPSession_detach env r s =
     (if \<not> connection (heap s ! r) then
        (Some (Thrown ''Session already detached. Most likely the target has been closed.''), s)
      else (case Connection_send env ''Target.detachFromTarget'' EmptyObject (sessionId (heap s ! r)) s of
              (Inl e, s1) \<Rightarrow> (Some e, s1)
            | (Inr i, s1) \<Rightarrow> (None, s1)))"

section \<open>Runs of the connection\<close>

text \<open>
  The calls that reach the connection from outside: the public methods, and the two
  callbacks the constructor installs on the transport (\<open>_onMessage\<close>,
  \<open>_onTransportClose\<close>). The transport calls them only while they are installed;
  here they may be called in any state, which covers more runs. A call on a session object
  names the object; a reference to an object that was never constructed cannot occur and
  is ignored. A run keeps the state in which a call ends, whether it returns or throws.
\<close>

datatype 'j event =
    CreateSession string
  | SendOrDie sref string "'j option"
  | Send sref string "'j option"
  | Detach sref
  | SessionDispose sref
  | Subscribe sref event_name handler
  | Dispose
  | OnMessage "'j ProtocolResponse"
  | OnTransportClose

fun step :: "'j environment \<Rightarrow> 'j event \<Rightarrow> 'j system \<Rightarrow> 'j system" where
  "step env (CreateSession sid) s = snd (Connection_createSession sid s)"
| "step env (SendOrDie r method ps) s =
     (if r < length (heap s) then snd (CDPSession_sendOrDie env r method ps s) else s)"
| "step env (Send r method ps) s =
     (if r < length (heap s) then snd (CDPSession_send env r method ps s) else s)"
| "step env (Detach r) s =
     (if r < length (heap s) then snd (CDPSession_detach env r s) else s)"
| "step env (SessionDispose r) s =
     (if r < length (heap s) then snd (CDPSession_dispose env r s) else s)"
| "step env (Subscribe r name h) s =
     (if r < length (heap s) then EventEmitter_on r name h s else s)"
| "step env Dispose s = snd (Connection_dispose env s)"
| "step env (OnMessage object) s = snd (Connection_onMessage env object s)"
| "step env OnTransportClose s = snd (Connection_onTransportClose env s)"

fun run :: "'j environment \<Rightarrow> 'j event list \<Rightarrow> 'j system \<Rightarrow> 'j system" where
  "run env [] s = s"
| "run env (e # es) s = run env es (step env e s)"

text \<open>
  The promises that have an entry in the pending-command map of some session, and all
  promises that are settled or pending, each as often as it occurs.
\<close>

definition pending_pids :: "'j system \<Rightarrow> pid list" where
  "pending_pids s = concat (map (\<lambda>this. map (\<lambda>e. cb_promise (snd e)) (callbacks this)) (heap s))"

definition all_pids :: "'j system \<Rightarrow> pid list" where
  "all_pids s = map fst (settled s) @ pending_pids s"

text \<open>
  What holds in every state the connection can reach: a promise is never settled twice,
  nor settled while still pending, nor pending in two places; the registry only holds
  objects that exist.
\<close>

definition wf :: "'j system \<Rightarrow> bool" where
  "wf s \<longleftrightarrow>
     mset (all_pids s) \<subseteq># mset [0..<promises s]
   \<and> (\<forall>r \<in> set (Map_values (sessions s)). r < length (heap s))"

text \<open>
  The discipline of a caller: \<open>createSession\<close> only on an open connection and with
  an identifier that is not registered at that moment, and no command once the counter has
  reached \<open>2 ^ 53\<close>.
\<close>

fun permitted :: "'j system \<Rightarrow> 'j event \<Rightarrow> bool" where
  "permitted s (CreateSession sid) = (\<not> closed s \<and> \<not> Map_has (sessions s) sid)"
| "permitted s (SendOrDie r method ps) = (lastId s < 2 ^ 53)"
| "permitted s (Send r method ps) = (lastId s < 2 ^ 53)"
| "permitted s e = True"

fun disciplined :: "'j environment \<Rightarrow> 'j event list \<Rightarrow> 'j system \<Rightarrow> bool" where
  "disciplined env [] s = True"
| "disciplined env (e # es) s = (permitted s e \<and> disciplined env es (step env e s))"

text \<open>
  What the discipline adds. For every session object: once it is closed it has no pending
  command; the keys of its pending-command map are distinct identifiers that were issued;
  while it is open the connection is open and the object is the one registered under its
  identifier. And every promise created so far is settled or pending, exactly once.
\<close>

definition session_ok :: "'j system \<Rightarrow> sref \<Rightarrow> bool" where
  "session_ok s r \<longleftrightarrow>
     (let this = heap s ! r in
        (\<not> connection this \<longrightarrow> callbacks this = [])
      \<and> distinct (map fst (callbacks this))
      \<and> (\<forall>k \<in> set (map fst (callbacks this)). k \<le> lastId s)
      \<and> (connection this \<longrightarrow>
            \<not> closed s \<and> Map_get (sessions s) (sessionId this) = Some r))"

definition wf_strict :: "'j system \<Rightarrow> bool" where
  "wf_strict s \<longleftrightarrow>
     mset (all_pids s) = mset [0..<promises s]
   \<and> (\<forall>r \<in> set (Map_values (sessions s)). r < length (heap s))
   \<and> (\<forall>r < length (heap s). session_ok s r)"

text \<open>The calls that leave the root session registered under the empty identifier.\<close>

fun keeps_root :: "'j event \<Rightarrow> bool" where
  "keeps_root (CreateSession sid) = (sid \<noteq> [])"
| "keeps_root (SessionDispose r) = (r \<noteq> 0)"
| "keeps_root Dispose = False"
| "keeps_root OnTransportClose = False"
| "keeps_root e = True"

text \<open>
  The counter and the identifiers issued: the \<open>k\<close>-th call of \<open>_send\<close> issues
  \<open>k\<close>, until the counter sticks at \<open>2 ^ 53\<close>.
\<close>

definition counted :: "'j system \<Rightarrow> bool" where
  "counted s \<longleftrightarrow>
     issued s = map (\<lambda>k. min (int k) (2 ^ 53)) [1..<Suc (length (issued s))]
   \<and> lastId s = min (int (length (issued s))) (2 ^ 53)"

text \<open>
  The root session is object 0, it is registered under the empty identifier and no other
  session carries the empty identifier.
\<close>

definition rooted :: "'j system \<Rightarrow> bool" where
  "rooted s \<longleftrightarrow>
     browserSession s = 0 \<and> 0 < length (heap s) \<and> Map_get (sessions s) [] = Some 0
   \<and> (\<forall>r < length (heap s). sessionId (heap s ! r) = [] \<longrightarrow> r = 0)"

section \<open>Properties of the model\<close>

subsection \<open>Promises and their log\<close>

lemma first_outcome_fresh: "settle_count s p = 0 \<Longrightarrow> first_outcome s p = None"
  by (auto simp: settle_count_def first_outcome_def filter_empty_conv map_of_eq_None_iff)

lemma distinct_mset_subset:
  assumes "mset xs \<subseteq># mset ys" "distinct ys"
  shows "distinct xs"
proof -
  have "count (mset xs) a \<le> 1" for a
  proof -
    have "count (mset xs) a \<le> count (mset ys) a"
      using assms(1) by (rule mset_subset_eq_count)
    also have "\<dots> \<le> 1" using assms(2) by (simp add: distinct_count_atmost_1)
    finally show ?thesis .
  qed
  then show ?thesis
    by (metis count_mset_0_iff distinct_count_atmost_1 le_antisym nat_less_le not_less_eq_eq One_nat_def less_one linorder_not_less)
qed

lemma wf_distinct: "wf s \<Longrightarrow> distinct (all_pids s)"
  unfolding wf_def by (metis distinct_mset_subset distinct_upt)

lemma wf_bound: "wf s \<Longrightarrow> p \<in> set (all_pids s) \<Longrightarrow> p < promises s"
  unfolding wf_def by (metis atLeastLessThan_iff mset_subset_eqD set_mset_mset set_upt)

lemma pending_pids_mem:
  "r < length (heap s) \<Longrightarrow> e \<in> set (callbacks (heap s ! r)) \<Longrightarrow> cb_promise (snd e) \<in> set (pending_pids s)"
  by (auto simp: pending_pids_def intro!: bexI [of _ "heap s ! r"])

lemma wf_pending_unsettled:
  assumes "wf s" "r < length (heap s)" "e \<in> set (callbacks (heap s ! r))"
  shows "first_outcome s (cb_promise (snd e)) = None"
proof -
  have "cb_promise (snd e) \<in> set (pending_pids s)"
    using assms(2,3) by (rule pending_pids_mem)
  moreover have "set (map fst (settled s)) \<inter> set (pending_pids s) = {}"
    using wf_distinct [OF assms(1)] by (simp add: all_pids_def)
  ultimately have "cb_promise (snd e) \<notin> fst ` set (settled s)" by auto
  then show ?thesis by (simp add: first_outcome_def map_of_eq_None_iff)
qed

lemma wf_pending_distinct:
  assumes "wf s" "r < length (heap s)"
  shows "distinct (map (\<lambda>e. cb_promise (snd e)) (callbacks (heap s ! r)))"
proof -
  have "distinct (pending_pids s)"
    using wf_distinct [OF assms(1)] by (simp add: all_pids_def)
  then show ?thesis
    using assms(2) by (auto simp: pending_pids_def distinct_concat_iff dest!: nth_mem)
qed

subsection \<open>Association lists as Maps\<close>

lemma update_fresh: "k \<notin> fst ` set al \<Longrightarrow> AList.update k v al = al @ [(k, v)]"
  by (induction al) auto

lemma mset_update_le:
  "mset (map g (AList.update k v al)) \<subseteq># add_mset (g (k, v)) (mset (map g al))"
proof (induction al)
  case Nil
  show ?case by simp
next
  case (Cons a al)
  show ?case
  proof (cases "fst a = k")
    case True
    then show ?thesis by simp
  next
    case False
    have "add_mset (g a) (mset (map g (AList.update k v al)))
          \<subseteq># add_mset (g a) (add_mset (g (k, v)) (mset (map g al)))"
      using Cons.IH by (simp only: mset_subset_eq_add_mset_cancel)
    with False show ?thesis by (simp add: add_mset_commute)
  qed
qed

lemma mset_delete_le:
  "map_of al k = Some v \<Longrightarrow>
   add_mset (g (k, v)) (mset (map g (AList.delete k al))) \<subseteq># mset (map g al)"
proof (induction al)
  case Nil
  then show ?case by simp
next
  case (Cons a al)
  show ?case
  proof (cases "fst a = k")
    case True
    with Cons.prems have a: "a = (k, v)" by (cases a) simp
    have "mset (map g (AList.delete k al)) \<subseteq># mset (map g al)"
      by (simp add: AList.delete_eq image_mset_subseteq_mono multiset_filter_subset)
    with True a show ?thesis by simp
  next
    case False
    with Cons.prems have "map_of al k = Some v" by (cases a) (simp split: if_splits)
    from Cons.IH [OF this] False show ?thesis by (simp add: add_mset_commute)
  qed
qed

lemma mset_delete_eq:
  "distinct (map fst al) \<Longrightarrow> map_of al k = Some v \<Longrightarrow>
   add_mset (g (k, v)) (mset (map g (AList.delete k al))) = mset (map g al)"
proof (induction al)
  case Nil
  then show ?case by simp
next
  case (Cons a al)
  show ?case
  proof (cases "fst a = k")
    case True
    with Cons.prems have a: "a = (k, v)" by (cases a) simp
    from True Cons.prems(1) have "k \<notin> fst ` set al" by auto
    then have "AList.delete k al = al" by simp
    with True a show ?thesis by simp
  next
    case False
    with Cons.prems have "map_of al k = Some v" by (cases a) (simp split: if_splits)
    moreover from Cons.prems have "distinct (map fst al)" by simp
    ultimately have "add_mset (g (k, v)) (mset (map g (AList.delete k al))) = mset (map g al)"
      by (rule Cons.IH [rotated])
    with False show ?thesis by (simp add: add_mset_commute)
  qed
qed

lemma values_update: "set (map snd (AList.update k v al)) \<subseteq> insert v (set (map snd al))"
  by (induction al) auto

lemma values_delete: "set (map snd (AList.delete k al)) \<subseteq> set (map snd al)"
  by (auto simp: AList.delete_eq)

lemma keys_delete: "set (map fst (AList.delete k al)) \<subseteq> set (map fst al)"
  by (auto simp: AList.delete_eq)

subsection \<open>The heap\<close>

lemma mset_concat_update:
  "r < length xs \<Longrightarrow>
   mset (concat (map f (xs[r := y]))) + mset (f (xs ! r)) = mset (concat (map f xs)) + mset (f y)"
proof (induction xs arbitrary: r)
  case Nil
  then show ?case by simp
next
  case (Cons x xs)
  show ?case
  proof (cases r)
    case 0
    then show ?thesis by simp
  next
    case (Suc n)
    with Cons.prems have "n < length xs" by simp
    from Cons.IH [OF this] Suc show ?thesis by (simp add: ac_simps)
  qed
qed

lemma pending_update:
  assumes "r < length (heap s)"
  shows "mset (pending_pids (s\<lparr>heap := (heap s)[r := this]\<rparr>))
           + mset (map (\<lambda>e. cb_promise (snd e)) (callbacks (heap s ! r)))
         = mset (pending_pids s) + mset (map (\<lambda>e. cb_promise (snd e)) (callbacks this))"
  using mset_concat_update [OF assms, of "\<lambda>this. map (\<lambda>e. cb_promise (snd e)) (callbacks this)" this]
  by (simp add: pending_pids_def)

subsection \<open>What each operation does to the fields the invariants read\<close>

lemma call_handlers_quiet: "\<forall>k. \<not> throws k \<Longrightarrow> call_handlers throws k hs = (hs, False)"
  by (induction hs arbitrary: k) simp_all

lemma call_handlers_take:
  "fst (call_handlers throws k hs) = take (length (fst (call_handlers throws k hs))) hs"
  by (induction hs arbitrary: k) (simp_all add: case_prod_unfold Let_def)

lemma called_quiet: "quiet env \<Longrightarrow> called env s hs = hs"
  by (simp add: called_def quiet_def call_handlers_quiet)

lemma emit_fields:
  "heap (snd (emit env r n a s)) = heap s"
  "settled (snd (emit env r n a s)) = settled s"
  "promises (snd (emit env r n a s)) = promises s"
  "sessions (snd (emit env r n a s)) = sessions s"
  "lastId (snd (emit env r n a s)) = lastId s"
  "closed (snd (emit env r n a s)) = closed s"
  "issued (snd (emit env r n a s)) = issued s"
  "browserSession (snd (emit env r n a s)) = browserSession s"
  by (simp_all add: emit_def Let_def case_prod_unfold)

lemma emit_delivered:
  "delivered (snd (emit env r n a s)) =
     delivered s @ map (\<lambda>h. (r, h, n, a)) (called env s (subscribers (heap s ! r) n))"
  by (auto simp: emit_def Let_def case_prod_unfold called_def)

lemma emit_quiet: "quiet env \<Longrightarrow> n \<noteq> EvMethod (Some ''error'') \<Longrightarrow> fst (emit env r n a s) = None"
  by (simp add: emit_def Let_def quiet_def call_handlers_quiet)

lemma onClose_fields:
  "heap (snd (CDPSession_onClose env r s)) = (heap s)[r := (heap s ! r)\<lparr>callbacks := [], connection := False\<rparr>]"
  "settled (snd (CDPSession_onClose env r s)) = settled s @
     map (\<lambda>(i, callback). (cb_promise callback, Reject (JsError (cb_from callback)
            (''Protocol error ('' @ cb_method callback @ ''): Target closed.''))))
       (callbacks (heap s ! r))"
  "promises (snd (CDPSession_onClose env r s)) = promises s"
  "sessions (snd (CDPSession_onClose env r s)) = sessions s"
  "lastId (snd (CDPSession_onClose env r s)) = lastId s"
  "closed (snd (CDPSession_onClose env r s)) = closed s"
  "issued (snd (CDPSession_onClose env r s)) = issued s"
  "browserSession (snd (CDPSession_onClose env r s)) = browserSession s"
  by (simp_all add: CDPSession_onClose_def emit_fields Let_def)

lemma onClose_quiet: "quiet env \<Longrightarrow> fst (CDPSession_onClose env r s) = None"
  by (simp add: CDPSession_onClose_def Let_def emit_quiet)

lemma all_pids_heap_settled:
  "heap s' = heap s \<Longrightarrow> settled s' = settled s \<Longrightarrow> all_pids s' = all_pids s"
  by (simp add: all_pids_def pending_pids_def)

lemma wf_same:
  assumes "wf s" "promises s' = promises s" "mset (all_pids s') \<subseteq># mset (all_pids s)"
    "set (Map_values (sessions s')) \<subseteq> set (Map_values (sessions s))"
    "length (heap s) \<le> length (heap s')"
  shows "wf s'"
proof -
  have "mset (all_pids s') \<subseteq># mset [0..<promises s']"
    using assms(1,2,3) unfolding wf_def by (metis subset_mset.order_trans)
  moreover have "\<forall>r \<in> set (Map_values (sessions s')). r < length (heap s')"
    using assms(1,4,5) unfolding wf_def by fastforce
  ultimately show ?thesis unfolding wf_def by simp
qed

lemma mset_upt_Suc: "mset [0..<Suc n] = add_mset n (mset [0..<n])"
  by (simp del: mset_upt)

lemma wf_new_promise:
  assumes "wf s" "promises s' = Suc (promises s)"
    "mset (all_pids s') \<subseteq># add_mset (promises s) (mset (all_pids s))"
    "set (Map_values (sessions s')) \<subseteq> set (Map_values (sessions s))"
    "length (heap s) \<le> length (heap s')"
  shows "wf s'"
proof -
  have "mset (all_pids s) \<subseteq># mset [0..<promises s]"
    using assms(1) unfolding wf_def by blast
  then have "add_mset (promises s) (mset (all_pids s)) \<subseteq># mset [0..<promises s']"
    unfolding assms(2) mset_upt_Suc by (rule mset_subset_eq_add_mset_cancel [THEN iffD2])
  with assms(3) have "mset (all_pids s') \<subseteq># mset [0..<promises s']"
    by (rule subset_mset.order_trans)
  moreover have "\<forall>r \<in> set (Map_values (sessions s')). r < length (heap s')"
    using assms(1,4,5) unfolding wf_def by fastforce
  ultimately show ?thesis unfolding wf_def by blast
qed

lemma all_pids_onClose:
  assumes "r < length (heap s)"
  shows "mset (all_pids (snd (CDPSession_onClose env r s))) = mset (all_pids s)"
proof -
  let ?c = "(heap s ! r)\<lparr>callbacks := [], connection := False\<rparr>"
  have "pending_pids (snd (CDPSession_onClose env r s)) = pending_pids (s\<lparr>heap := (heap s)[r := ?c]\<rparr>)"
    by (simp add: pending_pids_def onClose_fields)
  moreover have "mset (pending_pids (s\<lparr>heap := (heap s)[r := ?c]\<rparr>))
      + mset (map (\<lambda>e. cb_promise (snd e)) (callbacks (heap s ! r))) = mset (pending_pids s)"
    using pending_update [OF assms, of ?c] by simp
  moreover have "map fst (settled (snd (CDPSession_onClose env r s)))
      = map fst (settled s) @ map (\<lambda>e. cb_promise (snd e)) (callbacks (heap s ! r))"
    by (simp add: onClose_fields case_prod_unfold comp_def)
  ultimately show ?thesis
    by (simp add: all_pids_def ac_simps)
qed

lemma wf_onClose: "wf s \<Longrightarrow> r < length (heap s) \<Longrightarrow> wf (snd (CDPSession_onClose env r s))"
  by (rule wf_same [of s]) (simp_all add: all_pids_onClose onClose_fields)

text \<open>The loop over the sessions, by what its first step does.\<close>

lemma close_sessions_Cons:
  "close_sessions env (r # rs) s =
     (if fst (CDPSession_onClose env r s) = None
      then close_sessions env rs (snd (CDPSession_onClose env r s))
      else CDPSession_onClose env r s)"
  by (cases "CDPSession_onClose env r s") (auto split: option.splits)

lemma close_sessions_fields:
  "promises (snd (close_sessions env rs s)) = promises s"
  "sessions (snd (close_sessions env rs s)) = sessions s"
  "lastId (snd (close_sessions env rs s)) = lastId s"
  "closed (snd (close_sessions env rs s)) = closed s"
  "issued (snd (close_sessions env rs s)) = issued s"
  "browserSession (snd (close_sessions env rs s)) = browserSession s"
  "length (heap (snd (close_sessions env rs s))) = length (heap s)"
  by (induction rs arbitrary: s)
    (simp_all add: close_sessions_Cons onClose_fields del: close_sessions.simps(2))

lemma all_pids_close_sessions:
  "\<forall>r \<in> set rs. r < length (heap s) \<Longrightarrow>
   mset (all_pids (snd (close_sessions env rs s))) = mset (all_pids s)"
proof (induction rs arbitrary: s)
  case Nil
  show ?case by simp
next
  case (Cons r rs)
  have "\<forall>r' \<in> set rs. r' < length (heap (snd (CDPSession_onClose env r s)))"
    using Cons.prems by (simp add: onClose_fields)
  from Cons.IH [OF this] Cons.prems show ?case
    by (simp add: close_sessions_Cons all_pids_onClose del: close_sessions.simps(2))
qed

lemma all_pids_update [simp]:
  "all_pids (s\<lparr>sessions := x1\<rparr>) = all_pids s"
  "all_pids (s\<lparr>closed := x2\<rparr>) = all_pids s"
  "all_pids (s\<lparr>transport_handlers := x3\<rparr>) = all_pids s"
  "all_pids (s\<lparr>transport_closes := x4\<rparr>) = all_pids s"
  "all_pids (s\<lparr>transport_sent := x5\<rparr>) = all_pids s"
  "all_pids (s\<lparr>lastId := x6\<rparr>) = all_pids s"
  "all_pids (s\<lparr>delivered := x7\<rparr>) = all_pids s"
  "all_pids (s\<lparr>promises := x8\<rparr>) = all_pids s"
  "all_pids (s\<lparr>errors := x9\<rparr>) = all_pids s"
  by (simp_all add: all_pids_def pending_pids_def)

lemma all_pids_issued [simp]: "all_pids (s\<lparr>issued := x\<rparr>) = all_pids s"
  by (simp add: all_pids_def pending_pids_def)

lemma onTransportClose_snd:
  "snd (Connection_onTransportClose env s) =
     (if closed s then s
      else if fst (close_sessions env (Map_values (sessions s)) (s\<lparr>closed := True, transport_handlers := False\<rparr>)) = None
      then (snd (close_sessions env (Map_values (sessions s)) (s\<lparr>closed := True, transport_handlers := False\<rparr>)))
             \<lparr>sessions := []\<rparr>
      else snd (close_sessions env (Map_values (sessions s)) (s\<lparr>closed := True, transport_handlers := False\<rparr>)))"
  by (simp add: Connection_onTransportClose_def Let_def split: prod.splits option.splits)

lemma onTransportClose_fields:
  "promises (snd (Connection_onTransportClose env s)) = promises s"
  "lastId (snd (Connection_onTransportClose env s)) = lastId s"
  "issued (snd (Connection_onTransportClose env s)) = issued s"
  "browserSession (snd (Connection_onTransportClose env s)) = browserSession s"
  "length (heap (snd (Connection_onTransportClose env s))) = length (heap s)"
  "closed (snd (Connection_onTransportClose env s)) = True"
  "set (Map_values (sessions (snd (Connection_onTransportClose env s)))) \<subseteq> set (Map_values (sessions s))"
  by (simp_all add: onTransportClose_snd close_sessions_fields Map_values_def)

lemma all_pids_onTransportClose:
  assumes "\<forall>r \<in> set (Map_values (sessions s)). r < length (heap s)"
  shows "mset (all_pids (snd (Connection_onTransportClose env s))) = mset (all_pids s)"
proof -
  let ?s1 = "s\<lparr>closed := True, transport_handlers := False\<rparr>"
  have "\<forall>r \<in> set (Map_values (sessions s)). r < length (heap ?s1)"
    using assms by simp
  then have "mset (all_pids (snd (close_sessions env (Map_values (sessions s)) ?s1))) = mset (all_pids ?s1)"
    by (rule all_pids_close_sessions)
  then show ?thesis
    by (simp add: onTransportClose_snd)
qed

lemma wf_onTransportClose:
  assumes "wf s"
  shows "wf (snd (Connection_onTransportClose env s))"
proof (rule wf_same [OF assms])
  show "mset (all_pids (snd (Connection_onTransportClose env s))) \<subseteq># mset (all_pids s)"
    using assms by (simp add: all_pids_onTransportClose wf_def)
qed (simp_all add: onTransportClose_fields)

lemma pending_pids_update [simp]:
  "pending_pids (s\<lparr>sessions := x1\<rparr>) = pending_pids s"
  "pending_pids (s\<lparr>closed := x2\<rparr>) = pending_pids s"
  "pending_pids (s\<lparr>transport_handlers := x3\<rparr>) = pending_pids s"
  "pending_pids (s\<lparr>transport_closes := x4\<rparr>) = pending_pids s"
  "pending_pids (s\<lparr>transport_sent := x5\<rparr>) = pending_pids s"
  "pending_pids (s\<lparr>lastId := x6\<rparr>) = pending_pids s"
  "pending_pids (s\<lparr>delivered := x7\<rparr>) = pending_pids s"
  "pending_pids (s\<lparr>promises := x8\<rparr>) = pending_pids s"
  "pending_pids (s\<lparr>errors := x9\<rparr>) = pending_pids s"
  "pending_pids (s\<lparr>settled := x10\<rparr>) = pending_pids s"
  by (simp_all add: pending_pids_def)

lemma pending_pids_issued [simp]: "pending_pids (s\<lparr>issued := x\<rparr>) = pending_pids s"
  by (simp add: pending_pids_def)

lemma send_fields:
  "heap (snd (Connection_send env m ps sid s)) = heap s"
  "settled (snd (Connection_send env m ps sid s)) = settled s"
  "promises (snd (Connection_send env m ps sid s)) = promises s"
  "errors (snd (Connection_send env m ps sid s)) = errors s"
  "sessions (snd (Connection_send env m ps sid s)) = sessions s"
  "closed (snd (Connection_send env m ps sid s)) = closed s"
  "browserSession (snd (Connection_send env m ps sid s)) = browserSession s"
  "lastId (snd (Connection_send env m ps sid s)) = js_increment (lastId s)"
  "issued (snd (Connection_send env m ps sid s)) = issued s @ [js_increment (lastId s)]"
  "\<not> isl (fst (Connection_send env m ps sid s)) \<Longrightarrow>
     fst (Connection_send env m ps sid s) = Inr (js_increment (lastId s))"
  by (simp_all add: Connection_send_def Let_def split: if_splits)

text \<open>
  The three ways \<open>sendOrDie\<close> ends: on a closed session, with a throw of \<open>_send\<close>,
  and with a pending command.
\<close>

lemma sendOrDie_closed_fields:
  assumes "\<not> connection (heap s ! r)"
  shows "heap (snd (CDPSession_sendOrDie env r m ps s)) = heap s"
    "settled (snd (CDPSession_sendOrDie env r m ps s)) = settled s @
       [(promises s, Reject (JsError (errors s) (''Protocol error ('' @ m @
           ''): Session closed. Most likely the target has been closed.'')))]"
    "lastId (snd (CDPSession_sendOrDie env r m ps s)) = lastId s"
    "issued (snd (CDPSession_sendOrDie env r m ps s)) = issued s"
    "promises (snd (CDPSession_sendOrDie env r m ps s)) = Suc (promises s)"
    "fst (CDPSession_sendOrDie env r m ps s) = Inr (promises s)"
  using assms by (simp_all add: CDPSession_sendOrDie_def Let_def)

lemma sendOrDie_thrown_fields:
  assumes "connection (heap s ! r)"
    "isl (fst (Connection_send env m (default_params ps) (sessionId (heap s ! r)) s))"
  shows "heap (snd (CDPSession_sendOrDie env r m ps s)) = heap s"
    "settled (snd (CDPSession_sendOrDie env r m ps s)) = settled s"
    "lastId (snd (CDPSession_sendOrDie env r m ps s)) = js_increment (lastId s)"
    "issued (snd (CDPSession_sendOrDie env r m ps s)) = issued s @ [js_increment (lastId s)]"
    "promises (snd (CDPSession_sendOrDie env r m ps s)) = promises s"
    "isl (fst (CDPSession_sendOrDie env r m ps s))"
  using assms
  by (simp_all add: CDPSession_sendOrDie_def Let_def Connection_send_def split: if_splits)

lemma sendOrDie_open_fields:
  assumes "connection (heap s ! r)"
    "\<not> isl (fst (Connection_send env m (default_params ps) (sessionId (heap s ! r)) s))"
  shows "heap (snd (CDPSession_sendOrDie env r m ps s)) =
      (heap s)[r := (heap s ! r)\<lparr>callbacks := Map_set (callbacks (heap s ! r)) (js_increment (lastId s))
          \<lparr>cb_promise = promises s, cb_from = errors s, cb_method = m\<rparr>\<rparr>]"
    "settled (snd (CDPSession_sendOrDie env r m ps s)) = settled s"
    "lastId (snd (CDPSession_sendOrDie env r m ps s)) = js_increment (lastId s)"
    "issued (snd (CDPSession_sendOrDie env r m ps s)) = issued s @ [js_increment (lastId s)]"
    "promises (snd (CDPSession_sendOrDie env r m ps s)) = Suc (promises s)"
    "fst (CDPSession_sendOrDie env r m ps s) = Inr (promises s)"
  using assms
  by (simp_all add: CDPSession_sendOrDie_def Let_def Connection_send_def split: if_splits)

lemma sendOrDie_fields:
  "sessions (snd (CDPSession_sendOrDie env r m ps s)) = sessions s"
  "closed (snd (CDPSession_sendOrDie env r m ps s)) = closed s"
  "browserSession (snd (CDPSession_sendOrDie env r m ps s)) = browserSession s"
  "length (heap (snd (CDPSession_sendOrDie env r m ps s))) = length (heap s)"
  "promises s \<le> promises (snd (CDPSession_sendOrDie env r m ps s))"
  by (simp_all add: CDPSession_sendOrDie_def Let_def Connection_send_def)

lemma sendOrDie_cases:
  obtains (closed) "\<not> connection (heap s ! r)"
  | (thrown) "connection (heap s ! r)"
      "isl (fst (Connection_send env m (default_params ps) (sessionId (heap s ! r)) s))"
  | (sent) "connection (heap s ! r)"
      "\<not> isl (fst (Connection_send env m (default_params ps) (sessionId (heap s ! r)) s))"
  by blast

lemma send_eq: "snd (CDPSession_send env r m ps s) = snd (CDPSession_sendOrDie env r m ps s)"
  by (simp add: CDPSession_send_def split: prod.splits sum.splits)

lemma all_pids_sendOrDie:
  assumes "r < length (heap s)"
    "promises (snd (CDPSession_sendOrDie env r m ps s)) = Suc (promises s)"
  shows "mset (all_pids (snd (CDPSession_sendOrDie env r m ps s)))
           \<subseteq># add_mset (promises s) (mset (all_pids s))"
proof (cases rule: sendOrDie_cases [where s = s and r = r and env = env and m = m and ps = ps])
  case closed
  then show ?thesis
    by (simp add: all_pids_def pending_pids_def sendOrDie_closed_fields)
next
  case thrown
  with assms(2) show ?thesis by (simp add: sendOrDie_thrown_fields)
next
  case sent
  let ?cb = "\<lparr>cb_promise = promises s, cb_from = errors s, cb_method = m\<rparr>"
  let ?c = "(heap s ! r)\<lparr>callbacks := Map_set (callbacks (heap s ! r)) (js_increment (lastId s)) ?cb\<rparr>"
  let ?f = "\<lambda>e :: int \<times> ProtocolCallback. cb_promise (snd e)"
  have p: "pending_pids (snd (CDPSession_sendOrDie env r m ps s)) = pending_pids (s\<lparr>heap := (heap s)[r := ?c]\<rparr>)"
    using sent by (simp add: pending_pids_def sendOrDie_open_fields)
  have "mset (pending_pids (s\<lparr>heap := (heap s)[r := ?c]\<rparr>)) + mset (map ?f (callbacks (heap s ! r)))
      = mset (pending_pids s) + mset (map ?f (callbacks ?c))"
    using assms(1) by (rule pending_update)
  also have "\<dots> \<subseteq># mset (pending_pids s) + add_mset (promises s) (mset (map ?f (callbacks (heap s ! r))))"
    using mset_update_le [of ?f "js_increment (lastId s)" ?cb "callbacks (heap s ! r)"]
    by (simp add: Map_set_def)
  finally have "mset (pending_pids (s\<lparr>heap := (heap s)[r := ?c]\<rparr>)) \<subseteq># add_mset (promises s) (mset (pending_pids s))"
    by simp
  with sent show ?thesis
    by (simp add: all_pids_def p sendOrDie_open_fields)
qed

lemma wf_sendOrDie:
  assumes "wf s" "r < length (heap s)"
  shows "wf (snd (CDPSession_sendOrDie env r m ps s))"
proof (cases rule: sendOrDie_cases [where s = s and r = r and env = env and m = m and ps = ps])
  case thrown
  show ?thesis
    using assms(1)
    by (rule wf_same)
      (simp_all add: sendOrDie_thrown_fields [OF thrown] sendOrDie_fields all_pids_def
        pending_pids_def)
next
  case closed
  then have p: "promises (snd (CDPSession_sendOrDie env r m ps s)) = Suc (promises s)"
    by (simp add: sendOrDie_closed_fields)
  show ?thesis
  proof (rule wf_new_promise [OF assms(1) p])
    show "mset (all_pids (snd (CDPSession_sendOrDie env r m ps s)))
           \<subseteq># add_mset (promises s) (mset (all_pids s))"
      using assms(2) p by (rule all_pids_sendOrDie)
  qed (simp_all add: sendOrDie_fields)
next
  case sent
  then have p: "promises (snd (CDPSession_sendOrDie env r m ps s)) = Suc (promises s)"
    by (simp add: sendOrDie_open_fields)
  show ?thesis
  proof (rule wf_new_promise [OF assms(1) p])
    show "mset (all_pids (snd (CDPSession_sendOrDie env r m ps s)))
           \<subseteq># add_mset (promises s) (mset (all_pids s))"
      using assms(2) p by (rule all_pids_sendOrDie)
  qed (simp_all add: sendOrDie_fields)
qed

lemma detach_snd:
  "snd (CDPSession_detach env r s) =
     (if connection (heap s ! r)
      then snd (Connection_send env ''Target.detachFromTarget'' EmptyObject (sessionId (heap s ! r)) s)
      else s)"
  by (simp add: CDPSession_detach_def split: prod.splits sum.splits)

lemma detach_fields:
  "heap (snd (CDPSession_detach env r s)) = heap s"
  "settled (snd (CDPSession_detach env r s)) = settled s"
  "promises (snd (CDPSession_detach env r s)) = promises s"
  "sessions (snd (CDPSession_detach env r s)) = sessions s"
  "closed (snd (CDPSession_detach env r s)) = closed s"
  "browserSession (snd (CDPSession_detach env r s)) = browserSession s"
  by (simp_all add: detach_snd send_fields)

lemma wf_detach: "wf s \<Longrightarrow> wf (snd (CDPSession_detach env r s))"
  by (rule wf_same [of s]) (simp_all add: detach_fields all_pids_def pending_pids_def)

lemma on_fields:
  "heap (EventEmitter_on r n h s) = (heap s)[r := (heap s ! r)\<lparr>listeners := listeners (heap s ! r) @ [(n, h)]\<rparr>]"
  "settled (EventEmitter_on r n h s) = settled s"
  "promises (EventEmitter_on r n h s) = promises s"
  "sessions (EventEmitter_on r n h s) = sessions s"
  "closed (EventEmitter_on r n h s) = closed s"
  "lastId (EventEmitter_on r n h s) = lastId s"
  "issued (EventEmitter_on r n h s) = issued s"
  "browserSession (EventEmitter_on r n h s) = browserSession s"
  by (simp_all add: EventEmitter_on_def Let_def)

lemma pending_pids_same_callbacks:
  assumes "map callbacks (heap s') = map callbacks (heap s)"
  shows "pending_pids s' = pending_pids s"
proof -
  have "map (\<lambda>c. map (\<lambda>e. cb_promise (snd e)) (callbacks c)) h
      = map (map (\<lambda>e. cb_promise (snd e))) (map callbacks h)" for h :: "CDPSession list"
    by simp
  then show ?thesis unfolding pending_pids_def using assms by (simp only:)
qed

lemma map_callbacks_update:
  "callbacks c = callbacks (h ! r) \<Longrightarrow> map callbacks (h[r := c]) = map callbacks h"
  by (cases "r < length h") (simp_all add: map_update list_update_same_conv list_update_beyond)

lemma all_pids_on: "all_pids (EventEmitter_on r n h s) = all_pids s"
proof -
  have "pending_pids (EventEmitter_on r n h s) = pending_pids s"
    by (rule pending_pids_same_callbacks) (simp add: on_fields map_callbacks_update)
  then show ?thesis by (simp add: all_pids_def on_fields)
qed

lemma wf_on: "wf s \<Longrightarrow> wf (EventEmitter_on r n h s)"
  by (rule wf_same [of s]) (simp_all add: on_fields all_pids_on)

lemma createSession_fields:
  "heap (snd (Connection_createSession sid s)) = heap s @ [new_CDPSession sid]"
  "fst (Connection_createSession sid s) = length (heap s)"
  "sessions (snd (Connection_createSession sid s)) = Map_set (sessions s) sid (length (heap s))"
  "settled (snd (Connection_createSession sid s)) = settled s"
  "promises (snd (Connection_createSession sid s)) = promises s"
  "closed (snd (Connection_createSession sid s)) = closed s"
  "lastId (snd (Connection_createSession sid s)) = lastId s"
  "issued (snd (Connection_createSession sid s)) = issued s"
  "browserSession (snd (Connection_createSession sid s)) = browserSession s"
  by (simp_all add: Connection_createSession_def Let_def)

lemma all_pids_createSession: "all_pids (snd (Connection_createSession sid s)) = all_pids s"
  by (simp add: all_pids_def pending_pids_def createSession_fields new_CDPSession_def)

lemma wf_createSession:
  assumes "wf s"
  shows "wf (snd (Connection_createSession sid s))"
proof -
  let ?s' = "snd (Connection_createSession sid s)"
  have "mset (all_pids ?s') \<subseteq># mset [0..<promises ?s']"
    using assms by (simp add: all_pids_createSession createSession_fields wf_def del: mset_upt)
  moreover have "\<forall>r \<in> set (Map_values (sessions ?s')). r < length (heap ?s')"
    using assms values_update [of sid "length (heap s)" "sessions s"]
    by (fastforce simp: createSession_fields wf_def Map_values_def Map_set_def)
  ultimately show ?thesis unfolding wf_def by blast
qed

lemma disposeSession_snd:
  "snd (Connection_disposeSession env r s) =
     (if fst (CDPSession_onClose env r s) = None
      then (snd (CDPSession_onClose env r s))
             \<lparr>sessions := Map_delete (sessions s) (sessionId (heap (snd (CDPSession_onClose env r s)) ! r))\<rparr>
      else snd (CDPSession_onClose env r s))"
proof (cases "CDPSession_onClose env r s")
  case (Pair e s1)
  with onClose_fields(4) [of env r s] have "sessions s1 = sessions s" by simp
  with Pair show ?thesis
    by (simp add: Connection_disposeSession_def split: option.splits)
qed

lemma disposeSession_fields:
  "heap (snd (Connection_disposeSession env r s)) = heap (snd (CDPSession_onClose env r s))"
  "settled (snd (Connection_disposeSession env r s)) = settled (snd (CDPSession_onClose env r s))"
  "promises (snd (Connection_disposeSession env r s)) = promises s"
  "closed (snd (Connection_disposeSession env r s)) = closed s"
  "lastId (snd (Connection_disposeSession env r s)) = lastId s"
  "issued (snd (Connection_disposeSession env r s)) = issued s"
  "browserSession (snd (Connection_disposeSession env r s)) = browserSession s"
  "set (Map_values (sessions (snd (Connection_disposeSession env r s)))) \<subseteq> set (Map_values (sessions s))"
  using values_delete [of "sessionId (heap (snd (CDPSession_onClose env r s)) ! r)" "sessions s"]
  by (simp_all add: disposeSession_snd onClose_fields Map_values_def Map_delete_def)

lemma disposeSession_sessions:
  "fst (CDPSession_onClose env r s) = None \<Longrightarrow>
   sessions (snd (Connection_disposeSession env r s)) =
     Map_delete (sessions s) (sessionId (heap (snd (CDPSession_onClose env r s)) ! r))"
  "fst (CDPSession_onClose env r s) \<noteq> None \<Longrightarrow>
   sessions (snd (Connection_disposeSession env r s)) = sessions s"
  by (auto simp: disposeSession_snd onClose_fields)

lemma session_dispose_snd:
  "snd (CDPSession_dispose env r s) =
     (if connection (heap s ! r) then snd (Connection_disposeSession env r s) else s)"
  by (simp add: CDPSession_dispose_def)

lemma wf_session_dispose:
  assumes "wf s" "r < length (heap s)"
  shows "wf (snd (CDPSession_dispose env r s))"
proof (cases "connection (heap s ! r)")
  case False
  with assms show ?thesis by (simp add: session_dispose_snd)
next
  case True
  have "wf (snd (Connection_disposeSession env r s))"
  proof (rule wf_same [OF wf_onClose [OF assms]])
    show "mset (all_pids (snd (Connection_disposeSession env r s))) \<subseteq># mset (all_pids (snd (CDPSession_onClose env r s)))"
      by (simp add: all_pids_def pending_pids_def disposeSession_fields)
  qed (simp_all add: disposeSession_fields onClose_fields)
  with True show ?thesis by (simp add: session_dispose_snd)
qed

lemma conn_dispose_snd:
  "snd (Connection_dispose env s) =
     (if fst (Connection_onTransportClose env s) = None
      then (snd (Connection_onTransportClose env s))
             \<lparr>transport_closes := transport_closes (snd (Connection_onTransportClose env s)) + 1\<rparr>
      else snd (Connection_onTransportClose env s))"
  by (simp add: Connection_dispose_def split: prod.splits option.splits)

lemma wf_conn_dispose: "wf s \<Longrightarrow> wf (snd (Connection_dispose env s))"
  using wf_onTransportClose [of s env]
  by (simp add: conn_dispose_snd wf_def all_pids_def Map_values_def del: mset_upt)

lemma matching_Some:
  "matching cbs v = Some (i, cb) \<longleftrightarrow> v = Some i \<and> i \<noteq> 0 \<and> map_of cbs i = Some cb"
  by (auto simp: matching_def Map_get_def split: option.splits)

lemma session_onMessage_unmatched:
  assumes "matching (callbacks (heap s ! r)) (msg_id object) = None"
  shows "heap (snd (CDPSession_onMessage env r object s)) = heap s"
    "settled (snd (CDPSession_onMessage env r object s)) = settled s"
  using assms by (simp_all add: CDPSession_onMessage_def emit_fields)

lemma session_onMessage_matched:
  assumes "matching (callbacks (heap s ! r)) (msg_id object) = Some (i, cb)"
  shows "heap (snd (CDPSession_onMessage env r object s))
         = (heap s)[r := (heap s ! r)\<lparr>callbacks := Map_delete (callbacks (heap s ! r)) i\<rparr>]"
    "map fst (settled (snd (CDPSession_onMessage env r object s))) = map fst (settled s) @ [cb_promise cb]"
  using assms by (simp_all add: CDPSession_onMessage_def Let_def split: option.splits)

lemma session_onMessage_fields:
  "promises (snd (CDPSession_onMessage env r object s)) = promises s"
  "sessions (snd (CDPSession_onMessage env r object s)) = sessions s"
  "closed (snd (CDPSession_onMessage env r object s)) = closed s"
  "lastId (snd (CDPSession_onMessage env r object s)) = lastId s"
  "issued (snd (CDPSession_onMessage env r object s)) = issued s"
  "browserSession (snd (CDPSession_onMessage env r object s)) = browserSession s"
  "length (heap (snd (CDPSession_onMessage env r object s))) = length (heap s)"
  by (simp_all add: CDPSession_onMessage_def Let_def emit_fields emit_def
      split: option.splits prod.splits)

lemma mset_move_le:
  fixes A B C P :: "'a multiset"
  assumes "A + B = P + C" "add_mset x C \<subseteq># B"
  shows "add_mset x A \<subseteq># P"
proof -
  obtain D where "B = add_mset x C + D"
    using assms(2) by (auto simp: subset_mset.le_iff_add)
  with assms(1) have "(add_mset x A + D) + C = P + C"
    by (simp add: ac_simps)
  then have "add_mset x A + D = P"
    by (simp only: add_right_cancel)
  then show ?thesis
    by (metis mset_subset_eq_add_left)
qed

lemma all_pids_session_onMessage:
  assumes "r < length (heap s)"
  shows "mset (all_pids (snd (CDPSession_onMessage env r object s))) \<subseteq># mset (all_pids s)"
proof (cases "matching (callbacks (heap s ! r)) (msg_id object)")
  case None
  then show ?thesis
    by (simp add: all_pids_def pending_pids_def session_onMessage_unmatched)
next
  case (Some a)
  obtain i cb where a: "a = (i, cb)" by (cases a)
  let ?cbs = "callbacks (heap s ! r)"
  let ?c = "(heap s ! r)\<lparr>callbacks := Map_delete ?cbs i\<rparr>"
  let ?f = "\<lambda>e :: int \<times> ProtocolCallback. cb_promise (snd e)"
  let ?s' = "snd (CDPSession_onMessage env r object s)"
  from Some a have m: "matching ?cbs (msg_id object) = Some (i, cb)" by simp
  then have look: "map_of ?cbs i = Some cb" by (simp add: matching_Some)
  have p: "pending_pids ?s' = pending_pids (s\<lparr>heap := (heap s)[r := ?c]\<rparr>)"
    by (simp add: pending_pids_def session_onMessage_matched [OF m])
  have "mset (pending_pids (s\<lparr>heap := (heap s)[r := ?c]\<rparr>)) + mset (map ?f ?cbs)
      = mset (pending_pids s) + mset (map ?f (callbacks ?c))"
    using assms by (rule pending_update)
  moreover have "add_mset (cb_promise cb) (mset (map ?f (callbacks ?c))) \<subseteq># mset (map ?f ?cbs)"
    using mset_delete_le [OF look, of ?f] by (simp add: Map_delete_def)
  ultimately have "add_mset (cb_promise cb) (mset (pending_pids (s\<lparr>heap := (heap s)[r := ?c]\<rparr>)))
      \<subseteq># mset (pending_pids s)"
    by (rule mset_move_le)
  then show ?thesis
    by (simp add: all_pids_def p session_onMessage_matched [OF m])
qed

lemma conn_onMessage_cases:
  obtains "snd (Connection_onMessage env object s) = s"
  | r where "Map_get (sessions s) (or_empty (msg_sessionId object)) = Some r"
      "Connection_onMessage env object s = CDPSession_onMessage env r object s"
  by (cases "Map_get (sessions s) (or_empty (msg_sessionId object))")
    (simp_all add: Connection_onMessage_def)

lemma registered_valid:
  "wf s \<Longrightarrow> Map_get (sessions s) k = Some r \<Longrightarrow> r < length (heap s)"
  by (auto simp: wf_def Map_get_def Map_values_def dest!: map_of_SomeD)

lemma wf_conn_onMessage:
  assumes "wf s"
  shows "wf (snd (Connection_onMessage env object s))"
proof (cases rule: conn_onMessage_cases [of env object s])
  case 1
  with assms show ?thesis by simp
next
  case (2 r)
  have "r < length (heap s)" using assms 2(1) by (rule registered_valid)
  then have "mset (all_pids (snd (CDPSession_onMessage env r object s))) \<subseteq># mset (all_pids s)"
    by (rule all_pids_session_onMessage)
  then have "wf (snd (CDPSession_onMessage env r object s))"
    by (intro wf_same [OF assms]) (simp_all add: session_onMessage_fields)
  with 2(2) show ?thesis by simp
qed

lemma wf_step: "wf s \<Longrightarrow> wf (step env e s)"
  by (cases e)
    (simp_all add: wf_createSession wf_sendOrDie send_eq wf_detach wf_session_dispose wf_on
      wf_conn_dispose wf_conn_onMessage wf_onTransportClose)

lemma wf_run: "wf s \<Longrightarrow> wf (run env es s)"
  by (induction es arbitrary: s) (simp_all add: wf_step)

lemma wf_new_Connection: "wf new_Connection"
  by (simp add: wf_def new_Connection_def new_CDPSession_def all_pids_def pending_pids_def
      Map_values_def)

lemma settle_count_conv: "settle_count s p = count (mset (map fst (settled s))) p"
proof -
  have "length (filter (\<lambda>e. fst e = p) xs) = count (mset (map fst xs)) p"
    for xs :: "(nat \<times> 'a outcome) list"
    by (induction xs) auto
  then show ?thesis by (simp only: settle_count_def)
qed

lemma wf_settle_count: 
  assumes "wf s"
  shows "settle_count s p \<le> 1"
proof -
  have "count (mset (map fst (settled s))) p \<le> count (mset (all_pids s)) p"
    by (simp add: all_pids_def)
  also have "\<dots> \<le> count (mset [0..<promises s]) p"
    using assms unfolding wf_def by (blast intro: mset_subset_eq_count)
  also have "\<dots> \<le> 1"
    by (simp add: count_mset_set')
  finally show ?thesis by (simp add: settle_count_conv)
qed

subsection \<open>The invariant of a disciplined caller\<close>

lemma wf_strictI:
  assumes "mset (all_pids s) = mset [0..<promises s]"
    "\<And>r. r \<in> set (Map_values (sessions s)) \<Longrightarrow> r < length (heap s)"
    "\<And>r. r < length (heap s) \<Longrightarrow> session_ok s r"
  shows "wf_strict s"
  using assms unfolding wf_strict_def by blast

lemma wf_strict_pids: "wf_strict s \<Longrightarrow> mset (all_pids s) = mset [0..<promises s]"
  unfolding wf_strict_def by blast

lemma wf_strict_valid: "wf_strict s \<Longrightarrow> r \<in> set (Map_values (sessions s)) \<Longrightarrow> r < length (heap s)"
  unfolding wf_strict_def by blast

lemma wf_strict_session: "wf_strict s \<Longrightarrow> r < length (heap s) \<Longrightarrow> session_ok s r"
  unfolding wf_strict_def by blast

lemma wf_strict_wf: "wf_strict s \<Longrightarrow> wf s"
  unfolding wf_strict_def wf_def by simp

lemma session_okD:
  assumes "session_ok s r"
  shows "\<not> connection (heap s ! r) \<Longrightarrow> callbacks (heap s ! r) = []"
    "distinct (map fst (callbacks (heap s ! r)))"
    "k \<in> fst ` set (callbacks (heap s ! r)) \<Longrightarrow> k \<le> lastId s"
    "connection (heap s ! r) \<Longrightarrow> \<not> closed s"
    "connection (heap s ! r) \<Longrightarrow> map_of (sessions s) (sessionId (heap s ! r)) = Some r"
  using assms by (auto simp: session_ok_def Let_def Map_get_def)

lemma session_ok_cong:
  assumes "session_ok s r" "heap s' ! r = heap s ! r" "lastId s \<le> lastId s'"
    "closed s' = closed s" "sessions s' = sessions s"
  shows "session_ok s' r"
  using assms by (fastforce simp: session_ok_def Let_def)

lemma wf_strict_new_Connection: "wf_strict new_Connection"
  by (simp add: wf_strict_def new_Connection_def new_CDPSession_def all_pids_def pending_pids_def
      Map_values_def session_ok_def Map_get_def)

lemma strict_createSession:
  assumes "wf_strict s" "\<not> closed s" "\<not> Map_has (sessions s) sid"
  shows "wf_strict (snd (Connection_createSession sid s))"
proof (rule wf_strictI)
  let ?s' = "snd (Connection_createSession sid s)"
  show "mset (all_pids ?s') = mset [0..<promises ?s']"
    using wf_strict_pids [OF assms(1)] by (simp add: all_pids_createSession createSession_fields del: mset_upt)
  show "r < length (heap ?s')" if "r \<in> set (Map_values (sessions ?s'))" for r
    using wf_createSession [OF wf_strict_wf [OF assms(1)], of sid] that by (simp add: wf_def)
  show "session_ok ?s' r" if "r < length (heap ?s')" for r
  proof (cases "r < length (heap s)")
    case True
    have ok: "session_ok s r" using assms(1) True by (rule wf_strict_session)
    have free: "map_of (sessions s) sid = None" using assms(3) by (simp add: Map_has_def)
    show ?thesis
      using session_okD [OF ok] True free
      by (auto simp: session_ok_def Let_def createSession_fields nth_append Map_get_def Map_set_def
          update_conv')
  next
    case False
    with that have "r = length (heap s)" by (simp add: createSession_fields)
    then show ?thesis
      using assms(2)
      by (simp add: session_ok_def Let_def createSession_fields new_CDPSession_def Map_get_def
          Map_set_def update_conv')
  qed
qed

lemma js_increment_ge: "n \<le> js_increment n"
  by (simp add: js_increment_def)

lemma mset_cancel_pending:
  fixes A B P :: "'a multiset"
  assumes "A + B = P + add_mset x B"
  shows "A = add_mset x P"
proof -
  from assms have "A + B = add_mset x P + B" by simp
  then show ?thesis by (simp only: add_right_cancel)
qed

lemma strict_sendOrDie:
  assumes "wf_strict s" "r < length (heap s)" "lastId s < 2 ^ 53"
  shows "wf_strict (snd (CDPSession_sendOrDie env r m ps s))"
proof (cases rule: sendOrDie_cases [where s = s and r = r and env = env and m = m and ps = ps])
  case thrown
  let ?s' = "snd (CDPSession_sendOrDie env r m ps s)"
  show ?thesis
  proof (rule wf_strictI)
    show "mset (all_pids ?s') = mset [0..<promises ?s']"
      using wf_strict_pids [OF assms(1)]
      by (simp add: all_pids_def pending_pids_def sendOrDie_thrown_fields [OF thrown]
          del: mset_upt)
    show "r' < length (heap ?s')" if "r' \<in> set (Map_values (sessions ?s'))" for r'
      using wf_strict_valid [OF assms(1), of r'] that by (simp add: sendOrDie_fields)
    show "session_ok ?s' r'" if "r' < length (heap ?s')" for r'
    proof (rule session_ok_cong)
      show "session_ok s r'" using assms(1) that by (simp add: wf_strict_session sendOrDie_fields)
      show "lastId s \<le> lastId ?s'"
        by (simp add: sendOrDie_thrown_fields [OF thrown] js_increment_ge)
    qed (simp_all add: sendOrDie_thrown_fields [OF thrown] sendOrDie_fields)
  qed
next
  case closed
  let ?s' = "snd (CDPSession_sendOrDie env r m ps s)"
  show ?thesis
  proof (rule wf_strictI)
    show "mset (all_pids ?s') = mset [0..<promises ?s']"
      using wf_strict_pids [OF assms(1)]
      by (simp add: all_pids_def pending_pids_def sendOrDie_closed_fields [OF closed]
          mset_upt_Suc del: mset_upt)
    show "r' < length (heap ?s')" if "r' \<in> set (Map_values (sessions ?s'))" for r'
      using wf_strict_valid [OF assms(1), of r'] that by (simp add: sendOrDie_fields)
    show "session_ok ?s' r'" if "r' < length (heap ?s')" for r'
    proof (rule session_ok_cong)
      show "session_ok s r'" using assms(1) that by (simp add: wf_strict_session sendOrDie_fields)
    qed (simp_all add: sendOrDie_closed_fields [OF closed] sendOrDie_fields)
  qed
next
  case sent
  let ?s' = "snd (CDPSession_sendOrDie env r m ps s)"
  let ?i = "lastId s + 1"
  let ?cb = "\<lparr>cb_promise = promises s, cb_from = errors s, cb_method = m\<rparr>"
  let ?cbs = "callbacks (heap s ! r)"
  let ?c = "(heap s ! r)\<lparr>callbacks := ?cbs @ [(?i, ?cb)]\<rparr>"
  let ?f = "\<lambda>e :: int \<times> ProtocolCallback. cb_promise (snd e)"
  have inc: "js_increment (lastId s) = ?i" using assms(3) by (simp add: js_increment_def)
  have ok: "session_ok s r" using assms(1,2) by (rule wf_strict_session)
  have fresh: "?i \<notin> fst ` set ?cbs"
    using session_okD(3) [OF ok, of ?i] by auto
  then have upd: "Map_set ?cbs ?i ?cb = ?cbs @ [(?i, ?cb)]"
    by (simp add: Map_set_def update_fresh)
  have hp: "heap ?s' = (heap s)[r := ?c]"
    by (simp add: sendOrDie_open_fields [OF sent] inc upd)
  show ?thesis
  proof (rule wf_strictI)
    have "mset (pending_pids (s\<lparr>heap := (heap s)[r := ?c]\<rparr>)) + mset (map ?f ?cbs)
        = mset (pending_pids s) + mset (map ?f (callbacks ?c))"
      using assms(2) by (rule pending_update)
    then have "mset (pending_pids (s\<lparr>heap := (heap s)[r := ?c]\<rparr>)) = add_mset (promises s) (mset (pending_pids s))"
      by (intro mset_cancel_pending [of _ "mset (map ?f ?cbs)"]) simp
    moreover have "pending_pids ?s' = pending_pids (s\<lparr>heap := (heap s)[r := ?c]\<rparr>)"
      by (simp add: pending_pids_def hp)
    ultimately show "mset (all_pids ?s') = mset [0..<promises ?s']"
      using wf_strict_pids [OF assms(1)]
      by (simp add: all_pids_def sendOrDie_open_fields [OF sent] mset_upt_Suc del: mset_upt)
    show "r' < length (heap ?s')" if "r' \<in> set (Map_values (sessions ?s'))" for r'
      using wf_strict_valid [OF assms(1), of r'] that by (simp add: sendOrDie_fields)
    show "session_ok ?s' r'" if "r' < length (heap ?s')" for r'
    proof (cases "r' = r")
      case False
      show ?thesis
      proof (rule session_ok_cong)
        show "session_ok s r'" using assms(1) that by (simp add: wf_strict_session sendOrDie_fields)
        show "heap ?s' ! r' = heap s ! r'" using False by (simp add: hp)
        show "lastId s \<le> lastId ?s'" by (simp add: sendOrDie_open_fields [OF sent] inc)
      qed (simp_all add: sendOrDie_fields)
    next
      case r: True
      have "heap ?s' ! r = ?c" using assms(2) by (simp add: hp)
      moreover have "lastId ?s' = ?i" by (simp add: sendOrDie_open_fields [OF sent] inc)
      ultimately show ?thesis
        using session_okD [OF ok] sent(1) fresh r
        by (fastforce simp: session_ok_def Let_def sendOrDie_fields Map_get_def)
    qed
  qed
qed

lemma strict_detach:
  assumes "wf_strict s"
  shows "wf_strict (snd (CDPSession_detach env r s))"
proof (rule wf_strictI)
  let ?s' = "snd (CDPSession_detach env r s)"
  show "mset (all_pids ?s') = mset [0..<promises ?s']"
    using wf_strict_pids [OF assms] by (simp add: detach_fields all_pids_def pending_pids_def del: mset_upt)
  show "r' < length (heap ?s')" if "r' \<in> set (Map_values (sessions ?s'))" for r'
    using wf_strict_valid [OF assms, of r'] that by (simp add: detach_fields)
  show "session_ok ?s' r'" if "r' < length (heap ?s')" for r'
  proof (rule session_ok_cong)
    show "session_ok s r'" using assms that by (simp add: wf_strict_session detach_fields)
    show "lastId s \<le> lastId ?s'"
      by (simp add: detach_snd send_fields js_increment_ge)
  qed (simp_all add: detach_fields)
qed

lemma strict_on:
  assumes "wf_strict s"
  shows "wf_strict (EventEmitter_on r n h s)"
proof (rule wf_strictI)
  let ?s' = "EventEmitter_on r n h s"
  show "mset (all_pids ?s') = mset [0..<promises ?s']"
    using wf_strict_pids [OF assms] by (simp add: all_pids_on on_fields del: mset_upt)
  show "r' < length (heap ?s')" if "r' \<in> set (Map_values (sessions ?s'))" for r'
    using wf_strict_valid [OF assms, of r'] that by (simp add: on_fields)
  show "session_ok ?s' r'" if "r' < length (heap ?s')" for r'
  proof -
    from that have v: "r' < length (heap s)" by (simp add: on_fields)
    have "session_ok s r'" using assms v by (rule wf_strict_session)
    then show ?thesis
      using v by (cases "r' = r") (simp_all add: session_ok_def Let_def on_fields)
  qed
qed

lemma strict_session_dispose:
  assumes "wf_strict s" "r < length (heap s)" "quiet env"
  shows "wf_strict (snd (CDPSession_dispose env r s))"
proof (cases "connection (heap s ! r)")
  case False
  with assms(1) show ?thesis by (simp add: CDPSession_dispose_def)
next
  case True
  let ?s' = "snd (Connection_disposeSession env r s)"
  let ?c = "(heap s ! r)\<lparr>callbacks := [], connection := False\<rparr>"
  have ok: "session_ok s r" using assms(1,2) by (rule wf_strict_session)
  have hp: "heap ?s' = (heap s)[r := ?c]"
    by (simp add: disposeSession_fields onClose_fields)
  have reg: "sessions ?s' = AList.delete (sessionId (heap s ! r)) (sessions s)"
    using assms(2) onClose_quiet [OF assms(3), of r s]
    by (simp add: disposeSession_sessions onClose_fields Map_delete_def)
  have "wf_strict ?s'"
  proof (rule wf_strictI)
    have "all_pids ?s' = all_pids (snd (CDPSession_onClose env r s))"
      by (simp add: all_pids_def pending_pids_def disposeSession_fields)
    then show "mset (all_pids ?s') = mset [0..<promises ?s']"
      using wf_strict_pids [OF assms(1)] all_pids_onClose [OF assms(2), of env]
      by (simp add: disposeSession_fields del: mset_upt)
    show "r' < length (heap ?s')" if "r' \<in> set (Map_values (sessions ?s'))" for r'
    proof -
      from that have "r' \<in> set (map snd (AList.delete (sessionId (heap s ! r)) (sessions s)))"
        by (simp add: reg Map_values_def)
      then have "r' \<in> set (Map_values (sessions s))"
        using values_delete [of "sessionId (heap s ! r)" "sessions s"]
        unfolding Map_values_def by (rule rev_subsetD)
      then have "r' < length (heap s)" by (rule wf_strict_valid [OF assms(1)])
      then show ?thesis by (simp add: hp)
    qed
    show "session_ok ?s' r'" if "r' < length (heap ?s')" for r'
    proof (cases "r' = r")
      case True
      with assms(2) show ?thesis by (simp add: session_ok_def hp)
    next
      case False
      from that have v: "r' < length (heap s)" by (simp add: hp)
      have ok': "session_ok s r'" using assms(1) v by (rule wf_strict_session)
      have same: "heap ?s' ! r' = heap s ! r'" using False by (simp add: hp)
      have "map_of (sessions ?s') (sessionId (heap s ! r')) = Some r'" if "connection (heap s ! r')"
      proof -
        have "sessionId (heap s ! r') \<noteq> sessionId (heap s ! r)"
          using session_okD(5) [OF ok True] session_okD(5) [OF ok' that] False by auto
        then show ?thesis
          using session_okD(5) [OF ok' that] by (simp add: reg)
      qed
      moreover have "lastId ?s' = lastId s" "closed ?s' = closed s"
        by (simp_all add: disposeSession_fields)
      ultimately show ?thesis
        using session_okD [OF ok']
        by (auto simp: session_ok_def Let_def same Map_get_def)
    qed
  qed
  with True show ?thesis by (simp add: CDPSession_dispose_def)
qed

lemma close_sessions_quiet: "quiet env \<Longrightarrow> fst (close_sessions env rs s) = None"
  by (induction rs arbitrary: s)
    (simp_all add: close_sessions_Cons onClose_quiet del: close_sessions.simps(2))

lemma heap_close_sessions:
  "quiet env \<Longrightarrow> r < length (heap s) \<Longrightarrow>
   heap (snd (close_sessions env rs s)) ! r =
     (if r \<in> set rs then (heap s ! r)\<lparr>callbacks := [], connection := False\<rparr> else heap s ! r)"
proof (induction rs arbitrary: s)
  case Nil
  show ?case by simp
next
  case (Cons a rs)
  from Cons.prems have "r < length (heap (snd (CDPSession_onClose env a s)))"
    by (simp add: onClose_fields)
  from Cons.IH [OF Cons.prems(1) this] Cons.prems show ?case
    by (cases "a = r")
      (auto simp: close_sessions_Cons onClose_quiet onClose_fields nth_list_update
        simp del: close_sessions.simps(2))
qed

lemma strict_onTransportClose:
  assumes "wf_strict s" "quiet env"
  shows "wf_strict (snd (Connection_onTransportClose env s))"
proof (cases "closed s")
  case True
  with assms(1) show ?thesis by (simp add: Connection_onTransportClose_def)
next
  case False
  let ?s' = "snd (Connection_onTransportClose env s)"
  let ?rs = "Map_values (sessions s)"
  have hp: "heap ?s' = heap (snd (close_sessions env ?rs (s\<lparr>closed := True, transport_handlers := False\<rparr>)))"
    and reg: "sessions ?s' = []"
    using False by (simp_all add: onTransportClose_snd close_sessions_quiet [OF assms(2)])
  show ?thesis
  proof (rule wf_strictI)
    have "\<forall>r \<in> set ?rs. r < length (heap s)"
      using wf_strict_valid [OF assms(1)] by blast
    then show "mset (all_pids ?s') = mset [0..<promises ?s']"
      using wf_strict_pids [OF assms(1)]
      by (simp add: all_pids_onTransportClose onTransportClose_fields del: mset_upt)
    show "r < length (heap ?s')" if "r \<in> set (Map_values (sessions ?s'))" for r
      using that by (simp add: reg Map_values_def)
    show "session_ok ?s' r" if "r < length (heap ?s')" for r
    proof -
      from that have v: "r < length (heap s)" by (simp add: onTransportClose_fields)
      have ok: "session_ok s r" using assms(1) v by (rule wf_strict_session)
      have nth: "heap ?s' ! r = (if r \<in> set ?rs then (heap s ! r)\<lparr>callbacks := [], connection := False\<rparr>
                                 else heap s ! r)"
        unfolding hp using v by (subst heap_close_sessions [OF assms(2)]) simp_all
      show ?thesis
      proof (cases "r \<in> set ?rs")
        case True
        with nth show ?thesis by (simp add: session_ok_def)
      next
        case False
        have "\<not> connection (heap s ! r)"
        proof
          assume "connection (heap s ! r)"
          from session_okD(5) [OF ok this] have "r \<in> set ?rs"
            by (auto simp: Map_values_def dest!: map_of_SomeD intro: rev_image_eqI)
          with False show False by simp
        qed
        with nth False session_okD [OF ok] show ?thesis
          by (auto simp: session_ok_def Let_def onTransportClose_fields)
      qed
    qed
  qed
qed

lemma strict_conn_dispose:
  "wf_strict s \<Longrightarrow> quiet env \<Longrightarrow> wf_strict (snd (Connection_dispose env s))"
  using strict_onTransportClose [of s env]
  by (simp add: conn_dispose_snd wf_strict_def all_pids_def Map_values_def
      session_ok_def del: mset_upt)

lemma mset_move_eq:
  fixes A B C P :: "'a multiset"
  assumes "A + B = P + C" "add_mset x C = B"
  shows "add_mset x A = P"
proof -
  from assms have "add_mset x A + C = P + C" by auto
  then show ?thesis by (simp only: add_right_cancel)
qed

lemma strict_session_onMessage:
  assumes "wf_strict s" "r < length (heap s)"
  shows "wf_strict (snd (CDPSession_onMessage env r object s))"
proof (cases "matching (callbacks (heap s ! r)) (msg_id object)")
  case None
  let ?s' = "snd (CDPSession_onMessage env r object s)"
  show ?thesis
  proof (rule wf_strictI)
    show "mset (all_pids ?s') = mset [0..<promises ?s']"
      using wf_strict_pids [OF assms(1)]
      by (simp add: all_pids_def pending_pids_def session_onMessage_unmatched [OF None]
          session_onMessage_fields del: mset_upt)
    show "r' < length (heap ?s')" if "r' \<in> set (Map_values (sessions ?s'))" for r'
      using wf_strict_valid [OF assms(1), of r'] that by (simp add: session_onMessage_fields)
    show "session_ok ?s' r'" if "r' < length (heap ?s')" for r'
    proof (rule session_ok_cong)
      show "session_ok s r'" using assms(1) that by (simp add: wf_strict_session session_onMessage_fields)
    qed (simp_all add: session_onMessage_unmatched [OF None] session_onMessage_fields)
  qed
next
  case (Some a)
  obtain i cb where a: "a = (i, cb)" by (cases a)
  let ?cbs = "callbacks (heap s ! r)"
  let ?c = "(heap s ! r)\<lparr>callbacks := Map_delete ?cbs i\<rparr>"
  let ?f = "\<lambda>e :: int \<times> ProtocolCallback. cb_promise (snd e)"
  let ?s' = "snd (CDPSession_onMessage env r object s)"
  from Some a have m: "matching ?cbs (msg_id object) = Some (i, cb)" by simp
  then have look: "map_of ?cbs i = Some cb" by (simp add: matching_Some)
  have ok: "session_ok s r" using assms by (rule wf_strict_session)
  have conn: "connection (heap s ! r)"
    using session_okD(1) [OF ok] look by fastforce
  have hp: "heap ?s' = (heap s)[r := ?c]" by (rule session_onMessage_matched [OF m])
  show ?thesis
  proof (rule wf_strictI)
    have "mset (pending_pids (s\<lparr>heap := (heap s)[r := ?c]\<rparr>)) + mset (map ?f ?cbs)
        = mset (pending_pids s) + mset (map ?f (callbacks ?c))"
      using assms(2) by (rule pending_update)
    moreover have "add_mset (cb_promise cb) (mset (map ?f (callbacks ?c))) = mset (map ?f ?cbs)"
      using mset_delete_eq [OF session_okD(2) [OF ok] look, of ?f] by (simp add: Map_delete_def)
    ultimately have "add_mset (cb_promise cb) (mset (pending_pids (s\<lparr>heap := (heap s)[r := ?c]\<rparr>)))
        = mset (pending_pids s)"
      by (rule mset_move_eq)
    moreover have "pending_pids ?s' = pending_pids (s\<lparr>heap := (heap s)[r := ?c]\<rparr>)"
      by (simp add: pending_pids_def hp)
    ultimately show "mset (all_pids ?s') = mset [0..<promises ?s']"
      using wf_strict_pids [OF assms(1)]
      by (simp add: all_pids_def session_onMessage_matched [OF m] session_onMessage_fields del: mset_upt)
    show "r' < length (heap ?s')" if "r' \<in> set (Map_values (sessions ?s'))" for r'
      using wf_strict_valid [OF assms(1), of r'] that by (simp add: session_onMessage_fields)
    show "session_ok ?s' r'" if "r' < length (heap ?s')" for r'
    proof (cases "r' = r")
      case False
      show ?thesis
      proof (rule session_ok_cong)
        show "session_ok s r'" using assms(1) that by (simp add: wf_strict_session session_onMessage_fields)
        show "heap ?s' ! r' = heap s ! r'" using False by (simp add: hp)
      qed (simp_all add: session_onMessage_fields)
    next
      case True
      have "heap ?s' ! r = ?c" using assms(2) by (simp add: hp)
      moreover have "distinct (map fst (AList.delete i ?cbs))"
        using session_okD(2) [OF ok] by (rule distinct_delete)
      moreover have "set (map fst (AList.delete i ?cbs)) \<subseteq> set (map fst ?cbs)"
        by (rule keys_delete)
      ultimately show ?thesis
        using session_okD [OF ok] conn True
        by (auto simp: session_ok_def Let_def session_onMessage_fields Map_get_def Map_delete_def)
    qed
  qed
qed

lemma strict_conn_onMessage:
  assumes "wf_strict s"
  shows "wf_strict (snd (Connection_onMessage env object s))"
proof (cases rule: conn_onMessage_cases [of env object s])
  case 1
  with assms show ?thesis by simp
next
  case (2 r)
  have "r < length (heap s)" using wf_strict_wf [OF assms] 2(1) by (rule registered_valid)
  with assms have "wf_strict (snd (CDPSession_onMessage env r object s))"
    by (rule strict_session_onMessage)
  with 2(2) show ?thesis by simp
qed

lemma strict_step:
  "wf_strict s \<Longrightarrow> quiet env \<Longrightarrow> permitted s e \<Longrightarrow> wf_strict (step env e s)"
  by (cases e)
    (simp_all add: strict_createSession strict_sendOrDie send_eq strict_detach
      strict_session_dispose strict_on strict_conn_dispose strict_conn_onMessage
      strict_onTransportClose)

lemma strict_run:
  "wf_strict s \<Longrightarrow> quiet env \<Longrightarrow> disciplined env es s \<Longrightarrow> wf_strict (run env es s)"
  by (induction es arbitrary: s) (simp_all add: strict_step)

lemma count_upt: "count (mset [0..<n]) p = (if p < n then 1 else 0)"
proof -
  have "\<forall>a. count (mset [0..<n]) a = (if a \<in> set [0..<n] then 1 else 0)"
    by (rule distinct_count_atmost_1 [THEN iffD1]) (rule distinct_upt)
  then have "count (mset [0..<n]) p = (if p \<in> set [0..<n] then 1 else 0)" ..
  then show ?thesis by (simp del: mset_upt)
qed

lemma strict_count:
  assumes "wf_strict s" "p < promises s"
  shows "settle_count s p = (if p \<in> set (pending_pids s) then 0 else 1)"
proof -
  have "count (mset (all_pids s)) p = 1"
    using assms by (simp only: wf_strict_pids count_upt if_True)
  then have sum: "settle_count s p + count (mset (pending_pids s)) p = 1"
    by (simp add: all_pids_def settle_count_conv)
  show ?thesis
  proof (cases "p \<in> set (pending_pids s)")
    case True
    then have "0 < count (mset (pending_pids s)) p" by simp
    with sum True show ?thesis by arith
  next
    case False
    then have "count (mset (pending_pids s)) p = 0" by simp
    with sum False show ?thesis by simp
  qed
qed

lemma strict_closed_sessions:
  assumes "wf_strict s" "r < length (heap s)" "CDPSession_isClosed s r"
  shows "callbacks (heap s ! r) = []"
  using session_okD(1) [OF wf_strict_session [OF assms(1,2)]] assms(3)
  by (simp add: CDPSession_isClosed_def)

lemma strict_closed_connection:
  assumes "wf_strict s" "closed s"
  shows "\<forall>r < length (heap s). CDPSession_isClosed s r" "pending_pids s = []"
proof -
  show a: "\<forall>r < length (heap s). CDPSession_isClosed s r"
    using session_okD(4) [OF wf_strict_session [OF assms(1)]] assms(2)
    by (auto simp: CDPSession_isClosed_def)
  have "callbacks c = []" if "c \<in> set (heap s)" for c
  proof -
    from that obtain r where "r < length (heap s)" "c = heap s ! r"
      by (auto simp: in_set_conv_nth)
    with a strict_closed_sessions [OF assms(1)] show ?thesis by simp
  qed
  then show "pending_pids s = []"
    by (simp add: pending_pids_def)
qed

lemmas run_defs = new_Connection_def new_CDPSession_def Connection_createSession_def
  CDPSession_sendOrDie_def Connection_send_def CDPSession_send_def CDPSession_onMessage_def
  CDPSession_onClose_def Connection_onMessage_def Connection_onTransportClose_def
  Connection_dispose_def Connection_disposeSession_def CDPSession_dispose_def CDPSession_detach_def
  EventEmitter_on_def emit_def subscribers_def matching_def Map_get_def Map_has_def Map_set_def
  Map_delete_def Map_values_def js_increment_def js_string_def or_empty_def truthy_def
  of_field_def default_params_def quiet_env_def called_def Let_def


subsection \<open>The identifiers issued\<close>

lemma counted_same: "counted s \<Longrightarrow> issued s' = issued s \<Longrightarrow> lastId s' = lastId s \<Longrightarrow> counted s'"
  by (simp add: counted_def)

lemma counted_send:
  assumes "counted s" "issued s' = issued s @ [js_increment (lastId s)]"
    "lastId s' = js_increment (lastId s)"
  shows "counted s'"
proof -
  let ?n = "length (issued s)"
  have "js_increment (lastId s) = min (int (Suc ?n)) (2 ^ 53)"
    using assms(1) by (auto simp: counted_def js_increment_def min_def)
  moreover have "issued s = map (\<lambda>k. min (int k) (2 ^ 53)) [1..<Suc ?n]"
    using assms(1) by (simp add: counted_def)
  ultimately show ?thesis
    unfolding counted_def assms(2,3) by (simp del: upt_Suc add: upt_Suc_append)
qed

lemma conn_onMessage_fields:
  "issued (snd (Connection_onMessage env object s)) = issued s"
  "lastId (snd (Connection_onMessage env object s)) = lastId s"
  by (cases rule: conn_onMessage_cases [of env object s]; simp add: session_onMessage_fields)+

lemma issued_fields:
  "issued (snd (CDPSession_onClose env r s)) = issued s"
  "issued (snd (close_sessions env rs s)) = issued s"
  "issued (snd (Connection_onTransportClose env s)) = issued s"
  "issued (snd (Connection_dispose env s)) = issued s"
  "issued (snd (CDPSession_dispose env r s)) = issued s"
  "issued (snd (Connection_onMessage env object s)) = issued s"
  by (simp_all add: onClose_fields close_sessions_fields onTransportClose_fields
      conn_dispose_snd session_dispose_snd disposeSession_fields conn_onMessage_fields)

lemma lastId_fields:
  "lastId (snd (Connection_dispose env s)) = lastId s"
  "lastId (snd (CDPSession_dispose env r s)) = lastId s"
  "lastId (snd (Connection_onMessage env object s)) = lastId s"
  by (simp_all add: onTransportClose_fields conn_dispose_snd session_dispose_snd
      disposeSession_fields conn_onMessage_fields)

lemma sendOrDie_connected:
  assumes "connection (heap s ! r)"
  shows "issued (snd (CDPSession_sendOrDie env r m ps s)) = issued s @ [js_increment (lastId s)]"
    "lastId (snd (CDPSession_sendOrDie env r m ps s)) = js_increment (lastId s)"
  using assms
  by (cases "isl (fst (Connection_send env m (default_params ps) (sessionId (heap s ! r)) s))";
      simp add: sendOrDie_thrown_fields sendOrDie_open_fields)+

lemma sendOrDie_connection:
  assumes "r' < length (heap s)"
  shows "connection (heap (snd (CDPSession_sendOrDie env r m ps s)) ! r') = connection (heap s ! r')"
proof (cases rule: sendOrDie_cases [where s = s and r = r and env = env and m = m and ps = ps])
  case sent
  with assms show ?thesis
    by (cases "r' = r") (simp_all add: sendOrDie_open_fields)
qed (simp_all add: sendOrDie_closed_fields sendOrDie_thrown_fields)

lemma detach_issued:
  "connection (heap s ! r) \<Longrightarrow> issued (snd (CDPSession_detach env r s)) = issued s @ [js_increment (lastId s)]"
  "connection (heap s ! r) \<Longrightarrow> lastId (snd (CDPSession_detach env r s)) = js_increment (lastId s)"
  "\<not> connection (heap s ! r) \<Longrightarrow> snd (CDPSession_detach env r s) = s"
  by (simp_all add: detach_snd send_fields)

lemma counted_step:
  assumes "counted s"
  shows "counted (step env e s)"
proof (cases e)
  case (SendOrDie r m ps)
  show ?thesis
  proof (cases "connection (heap s ! r)")
    case True
    with assms SendOrDie show ?thesis
      by (auto intro: counted_send [of s] simp: sendOrDie_connected)
  next
    case False
    with assms SendOrDie show ?thesis
      by (auto intro: counted_same [of s] simp: sendOrDie_closed_fields)
  qed
next
  case (Send r m ps)
  show ?thesis
  proof (cases "connection (heap s ! r)")
    case True
    with assms Send show ?thesis
      by (auto intro: counted_send [of s] simp: sendOrDie_connected send_eq)
  next
    case False
    with assms Send show ?thesis
      by (auto intro: counted_same [of s] simp: sendOrDie_closed_fields send_eq)
  qed
next
  case (Detach r)
  show ?thesis
  proof (cases "connection (heap s ! r)")
    case True
    with assms Detach show ?thesis
      by (auto intro: counted_send [of s] simp: detach_issued)
  next
    case False
    with assms Detach show ?thesis
      by (simp add: detach_issued)
  qed
qed (use assms in \<open>auto intro: counted_same [of s]
      simp: createSession_fields issued_fields lastId_fields on_fields onTransportClose_fields\<close>)

lemma counted_run: "counted s \<Longrightarrow> counted (run env es s)"
  by (induction es arbitrary: s) (simp_all add: counted_step)

lemma counted_new_Connection: "counted new_Connection"
  by (simp add: counted_def new_Connection_def)


lemma root_sends:
  assumes "connection (heap s ! 0)" "0 < length (heap s)"
  shows "length (issued (run env (replicate n (SendOrDie 0 m ps)) s)) = length (issued s) + n"
  using assms
proof (induction n arbitrary: s)
  case 0
  show ?case by simp
next
  case (Suc n)
  let ?s' = "snd (CDPSession_sendOrDie env 0 m ps s)"
  have "connection (heap ?s' ! 0)" "0 < length (heap ?s')"
    using Suc.prems by (simp_all add: sendOrDie_connection sendOrDie_fields)
  from Suc.IH [OF this] Suc.prems show ?case
    by (simp add: sendOrDie_connected)
qed

subsection \<open>The root session\<close>

lemma rooted_same_heap:
  assumes "rooted s" "browserSession s' = browserSession s" "sessions s' = sessions s"
    "map sessionId (heap s') = map sessionId (heap s)"
  shows "rooted s'"
proof -
  have len: "length (heap s') = length (heap s)"
    using assms(4) by (rule map_eq_imp_length_eq)
  have "sessionId (heap s' ! r) = sessionId (heap s ! r)" if "r < length (heap s)" for r
    using that len arg_cong [OF assms(4), of "\<lambda>xs. xs ! r"] by simp
  with assms(1,2,3) len show ?thesis by (simp add: rooted_def)
qed

lemma map_sessionId_update:
  "sessionId c = sessionId (h ! r) \<Longrightarrow> map sessionId (h[r := c]) = map sessionId h"
  by (cases "r < length h") (simp_all add: map_update list_update_same_conv list_update_beyond)

lemma sessionIds_sendOrDie:
  "map sessionId (heap (snd (CDPSession_sendOrDie env r m ps s))) = map sessionId (heap s)"
  by (cases rule: sendOrDie_cases [where s = s and r = r and env = env and m = m and ps = ps])
    (simp_all add: sendOrDie_closed_fields sendOrDie_thrown_fields sendOrDie_open_fields
      map_sessionId_update)

lemma sessionIds_session_onMessage:
  "map sessionId (heap (snd (CDPSession_onMessage env r object s))) = map sessionId (heap s)"
proof (cases "matching (callbacks (heap s ! r)) (msg_id object)")
  case None
  then show ?thesis by (simp add: session_onMessage_unmatched)
next
  case (Some a)
  then show ?thesis
    by (cases a) (simp add: session_onMessage_matched map_sessionId_update)
qed

lemma rooted_step:
  assumes "rooted s" "keeps_root e"
  shows "rooted (step env e s)"
proof (cases e)
  case (CreateSession sid)
  with assms show ?thesis
    by (auto simp: rooted_def createSession_fields Map_get_def Map_set_def update_conv' nth_append
        new_CDPSession_def)
next
  case (SendOrDie r m ps)
  with assms(1) show ?thesis
    by (auto intro!: rooted_same_heap [of s] simp: sendOrDie_fields sessionIds_sendOrDie)
next
  case (Send r m ps)
  with assms(1) show ?thesis
    by (auto intro!: rooted_same_heap [of s] simp: sendOrDie_fields sessionIds_sendOrDie send_eq)
next
  case (Detach r)
  with assms(1) show ?thesis
    by (auto intro!: rooted_same_heap [of s] simp: detach_fields)
next
  case (SessionDispose r)
  show ?thesis
  proof (cases "r < length (heap s) \<and> connection (heap s ! r)")
    case False
    with assms(1) SessionDispose show ?thesis by (auto simp: CDPSession_dispose_def)
  next
    case True
    from assms(2) SessionDispose have "r \<noteq> 0" by simp
    with assms(1) True have sid: "sessionId (heap s ! r) \<noteq> []" by (auto simp: rooted_def)
    let ?s' = "snd (Connection_disposeSession env r s)"
    have hp: "heap ?s' = (heap s)[r := (heap s ! r)\<lparr>callbacks := [], connection := False\<rparr>]"
      by (simp add: disposeSession_fields onClose_fields)
    have "map_of (sessions ?s') [] = map_of (sessions s) []"
      using sid True
      by (cases "fst (CDPSession_onClose env r s) = None")
        (simp_all add: disposeSession_sessions onClose_fields Map_delete_def)
    moreover have "browserSession ?s' = browserSession s"
      by (simp add: disposeSession_fields)
    ultimately have "rooted ?s'"
      using assms(1) True
      by (auto simp: rooted_def hp Map_get_def nth_list_update)
    with True SessionDispose show ?thesis by (simp add: CDPSession_dispose_def)
  qed
next
  case (Subscribe r n h)
  with assms(1) show ?thesis
    by (auto intro!: rooted_same_heap [of s] simp: on_fields map_sessionId_update)
next
  case Dispose
  with assms(2) show ?thesis by simp
next
  case (OnMessage object)
  show ?thesis
  proof (cases rule: conn_onMessage_cases [of env object s])
    case 1
    with assms(1) OnMessage show ?thesis by simp
  next
    case (2 r)
    with assms(1) OnMessage show ?thesis
      by (auto intro!: rooted_same_heap [of s] simp: session_onMessage_fields sessionIds_session_onMessage)
  qed
next
  case OnTransportClose
  with assms(2) show ?thesis by simp
qed

lemma rooted_run: "rooted s \<Longrightarrow> list_all keeps_root es \<Longrightarrow> rooted (run env es s)"
  by (induction es arbitrary: s) (simp_all add: rooted_step)

lemma rooted_new_Connection: "rooted new_Connection"
  by (simp add: rooted_def new_Connection_def new_CDPSession_def Map_get_def)

section \<open>Sends on a closed session\<close>

text \<open>
  C5. On a session whose back-reference has been cleared, \<open>sendOrDie\<close> returns a promise
  that is rejected at once with the message
  \<open>Protocol error (<method>): Session closed. Most likely the target has been closed.\<close>;
  the connection is not invoked (its counter and the transport are untouched) and no
  session gets a pending entry.
\<close>

theorem sendOrDie_closed_session:
  assumes "CDPSession_isClosed s r"
  shows "case CDPSession_sendOrDie env r method ps s of (res, s') \<Rightarrow>
           res = Inr (promises s)
         \<and> settled s' = settled s @ [(promises s, Reject (JsError (errors s)
             (''Protocol error ('' @ method @
              ''): Session closed. Most likely the target has been closed.'')))]
         \<and> (settle_count s (promises s) = 0 \<longrightarrow>
              settle_count s' (promises s) = 1
            \<and> promise_state s' (Plain (promises s)) = Rejected (JsError (errors s)
                (''Protocol error ('' @ method @
                 ''): Session closed. Most likely the target has been closed.'')))
         \<and> lastId s' = lastId s \<and> issued s' = issued s \<and> transport_sent s' = transport_sent s
         \<and> heap s' = heap s \<and> sessions s' = sessions s"
proof -
  let ?s' = "snd (CDPSession_sendOrDie env r method ps s)"
  let ?e = "Reject (JsError (errors s) (''Protocol error ('' @ method @
              ''): Session closed. Most likely the target has been closed.''))"
  have "first_outcome ?s' (promises s) = Some ?e" if "settle_count s (promises s) = 0"
    using first_outcome_fresh [OF that] assms
    by (simp add: CDPSession_sendOrDie_def CDPSession_isClosed_def first_outcome_def map_add_def)
  moreover have "settle_count ?s' (promises s) = 1" if "settle_count s (promises s) = 0"
    using that assms
    by (simp add: CDPSession_sendOrDie_def CDPSession_isClosed_def settle_count_def)
  ultimately show ?thesis using assms
    by (simp add: CDPSession_sendOrDie_def CDPSession_isClosed_def split: prod.splits)
qed

theorem sendOrDie_closed_session_witness:
  "CDPSession_isClosed (snd (Connection_dispose quiet_env (new_Connection :: string system))) 0
   \<and> (case CDPSession_sendOrDie quiet_env 0 ''Runtime.enable'' None
             (snd (Connection_dispose quiet_env (new_Connection :: string system))) of
        (res, s') \<Rightarrow> res = Inr 0
          \<and> settled s' = [(0, Reject (JsError 0
               ''Protocol error (Runtime.enable): Session closed. Most likely the target has been closed.''))]
          \<and> settle_count s' 0 = 1
          \<and> lastId s' = 0 \<and> transport_sent s' = [] \<and> sessions s' = [])"
proof -
  let ?s = "snd (Connection_dispose quiet_env (new_Connection :: string system))"
  have c: "CDPSession_isClosed ?s 0"
    by (simp add: CDPSession_isClosed_def run_defs)
  have z: "promises ?s = 0" "settled ?s = []" "errors ?s = 0" "lastId ?s = 0"
    "transport_sent ?s = []" "sessions ?s = []"
    by (simp_all add: run_defs)
  have n: "settle_count ?s (promises ?s) = 0"
    by (simp add: settle_count_def z)
  show ?thesis
    using c n sendOrDie_closed_session [OF c, of "''Runtime.enable''" quiet_env None]
    by (simp add: z split: prod.splits)
qed

section \<open>Exactly-once settlement\<close>

text \<open>
  The promise that a call of \<open>sendOrDie\<close> returns is the next one in the order of
  creation, and no call takes a promise away: in any later state of a run the promises
  returned so far are the numbers below \<open>promises\<close>.
\<close>

lemma returned_promise:
  assumes "fst (CDPSession_sendOrDie env r method ps s) = Inr p"
  shows "p = promises s"
    and "promises (snd (CDPSession_sendOrDie env r method ps s)) = Suc (promises s)"
proof -
  have "p = promises s \<and> promises (snd (CDPSession_sendOrDie env r method ps s)) = Suc (promises s)"
  proof (cases rule: sendOrDie_cases [where s = s and r = r and env = env and m = "method" and ps = ps])
    case closed
    with assms show ?thesis by (simp add: sendOrDie_closed_fields)
  next
    case thrown
    then have "isl (fst (CDPSession_sendOrDie env r method ps s))"
      by (rule sendOrDie_thrown_fields(6))
    with assms show ?thesis by simp
  next
    case sent
    with assms show ?thesis by (simp add: sendOrDie_open_fields)
  qed
  then show "p = promises s"
    and "promises (snd (CDPSession_sendOrDie env r method ps s)) = Suc (promises s)"
    by simp_all
qed

lemma promises_step: "promises s \<le> promises (step env e s)"
proof (cases e)
  case (OnMessage object)
  then show ?thesis
    by (cases rule: conn_onMessage_cases [where env = env and object = object and s = s])
      (simp_all add: session_onMessage_fields)
qed (simp_all add: createSession_fields sendOrDie_fields send_eq detach_fields on_fields
    session_dispose_snd disposeSession_fields conn_dispose_snd onTransportClose_fields)

lemma promises_run: "promises s \<le> promises (run env es s)"
proof (induction es arbitrary: s)
  case Nil
  show ?case by simp
next
  case (Cons e es)
  have "promises s \<le> promises (step env e s)" by (rule promises_step)
  also have "\<dots> \<le> promises (run env es (step env e s))" by (rule Cons.IH)
  finally show ?case by simp
qed

text \<open>
  C1, as amended. Every promise returned by \<open>sendOrDie\<close> is settled at most once, in every
  state the connection can reach by any calls whatsoever, whatever throws on the way. When
  the caller keeps the discipline (\<open>createSession\<close> only while the connection is open and
  with an identifier that is not registered, fewer than \<open>2 ^ 53\<close> commands) and no
  subscriber throws, every promise created so far is settled exactly once unless its
  command is still in a pending-command map; a closed session has an empty pending-command
  map; and once the connection is closed every session is closed and every promise has been
  settled exactly once.
\<close>

theorem settled_exactly_once:
  "(\<forall>p. settle_count (run env evs new_Connection) p \<le> 1)
 \<and> (disciplined env evs new_Connection \<and> quiet env \<longrightarrow>
      (let s = run env evs new_Connection in
         (\<forall>p < promises s. settle_count s p = (if p \<in> set (pending_pids s) then 0 else 1))
       \<and> (\<forall>r < length (heap s). CDPSession_isClosed s r \<longrightarrow> callbacks (heap s ! r) = [])
       \<and> (closed s \<longrightarrow> (\<forall>r < length (heap s). CDPSession_isClosed s r)
                      \<and> (\<forall>p < promises s. settle_count s p = 1))))"
proof (intro conjI allI impI)
  show "settle_count (run env evs new_Connection) p \<le> 1" for p
    by (intro wf_settle_count wf_run wf_new_Connection)
next
  assume "disciplined env evs new_Connection \<and> quiet env"
  then have d: "disciplined env evs new_Connection" and q: "quiet env"
    by simp_all
  let ?s = "run env evs new_Connection"
  have st: "wf_strict ?s"
    using wf_strict_new_Connection q d by (rule strict_run)
  show "let s = ?s in
         (\<forall>p < promises s. settle_count s p = (if p \<in> set (pending_pids s) then 0 else 1))
       \<and> (\<forall>r < length (heap s). CDPSession_isClosed s r \<longrightarrow> callbacks (heap s ! r) = [])
       \<and> (closed s \<longrightarrow> (\<forall>r < length (heap s). CDPSession_isClosed s r)
                      \<and> (\<forall>p < promises s. settle_count s p = 1))"
    using strict_count [OF st] strict_closed_sessions [OF st] strict_closed_connection [OF st]
    by (simp add: Let_def)
qed

text \<open>
  Scenario B of the specification: the child session \<open>A1\<close> sends \<open>Debugger.enable\<close>,
  no reply arrives, the connection is disposed. The run keeps the discipline, the
  connection ends closed and the promise has been settled exactly once.
\<close>

theorem settled_exactly_once_witness:
  "disciplined quiet_env [CreateSession ''A1'', SendOrDie 1 ''Debugger.enable'' None, Dispose]
     (new_Connection :: unit system)
 \<and> quiet (quiet_env :: unit environment)
 \<and> closed (run quiet_env [CreateSession ''A1'', SendOrDie 1 ''Debugger.enable'' None, Dispose]
     (new_Connection :: unit system))
 \<and> settle_count (run quiet_env [CreateSession ''A1'', SendOrDie 1 ''Debugger.enable'' None, Dispose]
     (new_Connection :: unit system)) 0 = 1"
proof -
  let ?evs = "[CreateSession ''A1'', SendOrDie 1 ''Debugger.enable'' None, Dispose] :: unit event list"
  let ?s = "run quiet_env ?evs (new_Connection :: unit system)"
  have d: "disciplined quiet_env ?evs (new_Connection :: unit system)"
    by (simp add: run_defs)
  have q: "quiet (quiet_env :: unit environment)"
    by (simp add: quiet_def quiet_env_def)
  have c: "closed ?s" by (simp add: run_defs)
  have p: "0 < promises ?s" by (simp add: run_defs)
  have "\<forall>p < promises ?s. settle_count ?s p = 1"
    using settled_exactly_once [of quiet_env ?evs] d q c unfolding Let_def by blast
  with p have "settle_count ?s 0 = 1" by blast
  with d q c show ?thesis by blast
qed

text \<open>
  C1 as stated fails. \<open>createSession\<close> is called twice with the identifier \<open>A1\<close>; the
  first session object has sent \<open>Debugger.enable\<close> and is no longer in the registry when
  the transport closes. Its close handling never runs: the connection is closed, the one
  promise that was created has not been settled, and no reply can reach it any more.
\<close>

theorem replaced_session_never_settled:
  "closed (run quiet_env [CreateSession ''A1'', SendOrDie 1 ''Debugger.enable'' None,
       CreateSession ''A1'', OnTransportClose] (new_Connection :: unit system))
 \<and> promises (run quiet_env [CreateSession ''A1'', SendOrDie 1 ''Debugger.enable'' None,
       CreateSession ''A1'', OnTransportClose] (new_Connection :: unit system)) = 1
 \<and> settle_count (run quiet_env [CreateSession ''A1'', SendOrDie 1 ''Debugger.enable'' None,
       CreateSession ''A1'', OnTransportClose] (new_Connection :: unit system)) 0 = 0"
  by (simp add: run_defs settle_count_def)

text \<open>
  A subscriber that throws has the same effect within the discipline. The root session has
  a subscriber of \<open>Disconnected\<close> that throws, the child session \<open>A1\<close> has sent
  \<open>Debugger.enable\<close>, the transport closes. \<open>_onTransportClose\<close> sets \<open>_closed\<close>, the
  close handling of the root session, first in the registry, throws out of the loop, and
  the close handling of \<open>A1\<close> never runs: the connection is closed, \<open>A1\<close> is open and
  still registered, its promise is pending, and a second close of the transport returns at
  the first line.
\<close>

lemma throwing_subscriber_aborts_close:
  "disciplined (quiet_env\<lparr>handler_throws := \<lambda>k. True\<rparr>)
     [Subscribe 0 Disconnected 9, CreateSession ''A1'', SendOrDie 1 ''Debugger.enable'' None,
      OnTransportClose, OnTransportClose] (new_Connection :: unit system)
 \<and> closed (run (quiet_env\<lparr>handler_throws := \<lambda>k. True\<rparr>)
     [Subscribe 0 Disconnected 9, CreateSession ''A1'', SendOrDie 1 ''Debugger.enable'' None,
      OnTransportClose, OnTransportClose] (new_Connection :: unit system))
 \<and> \<not> CDPSession_isClosed (run (quiet_env\<lparr>handler_throws := \<lambda>k. True\<rparr>)
     [Subscribe 0 Disconnected 9, CreateSession ''A1'', SendOrDie 1 ''Debugger.enable'' None,
      OnTransportClose, OnTransportClose] (new_Connection :: unit system)) 1
 \<and> Connection_session (run (quiet_env\<lparr>handler_throws := \<lambda>k. True\<rparr>)
     [Subscribe 0 Disconnected 9, CreateSession ''A1'', SendOrDie 1 ''Debugger.enable'' None,
      OnTransportClose, OnTransportClose] (new_Connection :: unit system)) ''A1'' = Some 1
 \<and> pending_pids (run (quiet_env\<lparr>handler_throws := \<lambda>k. True\<rparr>)
     [Subscribe 0 Disconnected 9, CreateSession ''A1'', SendOrDie 1 ''Debugger.enable'' None,
      OnTransportClose, OnTransportClose] (new_Connection :: unit system)) = [0]
 \<and> settle_count (run (quiet_env\<lparr>handler_throws := \<lambda>k. True\<rparr>)
     [Subscribe 0 Disconnected 9, CreateSession ''A1'', SendOrDie 1 ''Debugger.enable'' None,
      OnTransportClose, OnTransportClose] (new_Connection :: unit system)) 0 = 0"
  by (simp add: run_defs settle_count_def pending_pids_def CDPSession_isClosed_def
      Connection_session_def)

text \<open>
  The other two ways a command stays unsettled for good, both outside the discipline. A
  session created after the connection was disposed still has its back-reference, so its
  command is sent and registered, and a second \<open>dispose\<close> rejects nothing.
\<close>

lemma session_created_after_dispose:
  "settle_count (run quiet_env [Dispose, CreateSession ''A1'', SendOrDie 1 ''Debugger.enable'' None,
       Dispose] (new_Connection :: unit system)) 0 = 0
 \<and> \<not> CDPSession_isClosed (run quiet_env [Dispose, CreateSession ''A1'',
       SendOrDie 1 ''Debugger.enable'' None, Dispose] (new_Connection :: unit system)) 1"
  by (simp add: run_defs settle_count_def CDPSession_isClosed_def)

text \<open>
  And at the counter value \<open>2 ^ 53\<close> two commands get the same identifier; the entry of the
  first one is overwritten, so its promise is neither settled nor pending.
\<close>

lemma overwritten_pending_entry:
  "pending_pids (run quiet_env [SendOrDie 0 ''Runtime.enable'' None, SendOrDie 0 ''Debugger.enable'' None]
      ((new_Connection :: unit system)\<lparr>lastId := 2 ^ 53 - 1\<rparr>)) = [1]
 \<and> settled (run quiet_env [SendOrDie 0 ''Runtime.enable'' None, SendOrDie 0 ''Debugger.enable'' None]
      ((new_Connection :: unit system)\<lparr>lastId := 2 ^ 53 - 1\<rparr>)) = []"
  by (simp add: run_defs pending_pids_def)

section \<open>Replies\<close>

text \<open>
  C2, the code at the failing input. The root session sends \<open>Debugger.enable\<close> and gets
  identifier 1; the reply \<open>{id: 1, error: {message: boom}}\<close> carries no \<open>method\<close>
  field, as replies do. The promise is rejected with the token captured at send time, but
  the message names the method of the reply, \<open>undefined\<close>, where \<open>_onClose\<close> names the
  method stored in the callback.
\<close>

theorem error_reply_names_reply_method:
  "settled (run (quiet_env\<lparr>stringify_error := \<lambda>e. ''{}''\<rparr>)
     [SendOrDie 0 ''Debugger.enable'' None,
      OnMessage \<lparr>msg_id = Some 1, msg_method = None, msg_params = None, msg_result = None,
                 msg_error = Some \<lparr>pe_message = ''boom'', pe_data = ()\<rparr>, msg_sessionId = None\<rparr>]
     (new_Connection :: unit system))
   = [(0, Reject (JsError 0 ''Protocol error (undefined): boom - {}''))]"
  by (simp add: run_defs)

text \<open>
  What \<open>_onMessage\<close> of a session does with a reply that matches a pending command, in
  general: the entry is removed and the promise is settled, with the result of the reply
  when there is no error, and otherwise with a message built from the \<open>method\<close> field of
  the reply.
\<close>

lemma matched_reply:
  assumes "matching (callbacks (heap s ! r)) (msg_id object) = Some (i, callback)"
  shows "CDPSession_onMessage env r object s =
    (None, s\<lparr>heap := (heap s)[r := (heap s ! r)\<lparr>callbacks := Map_delete (callbacks (heap s ! r)) i\<rparr>],
             settled := settled s @ [(cb_promise callback,
               case msg_error object of
                 None \<Rightarrow> Resolve (of_field (msg_result object))
               | Some err \<Rightarrow> Reject (JsError (cb_from callback)
                   (''Protocol error ('' @ js_string (msg_method object) @ ''): '' @
                    pe_message err @ '' - '' @ stringify_error env err)))]\<rparr>)"
  using assms by (simp add: CDPSession_onMessage_def Let_def split: option.splits)

text \<open>
  Scenario A of the specification: the root session sends \<open>Target.getTargets\<close>, the
  transport delivers the reply with identifier 1 and a result, the promise is fulfilled
  with that result and nothing is pending.
\<close>

lemma reply_resolves:
  "promise_state (run quiet_env
     [SendOrDie 0 ''Target.getTargets'' None,
      OnMessage \<lparr>msg_id = Some 1, msg_method = None, msg_params = None,
                 msg_result = Some ''targets: []'', msg_error = None, msg_sessionId = None\<rparr>]
     (new_Connection :: string system)) (Plain 0) = Fulfilled (Value ''targets: []'')
 \<and> pending_pids (run quiet_env
     [SendOrDie 0 ''Target.getTargets'' None,
      OnMessage \<lparr>msg_id = Some 1, msg_method = None, msg_params = None,
                 msg_result = Some ''targets: []'', msg_error = None, msg_sessionId = None\<rparr>]
     (new_Connection :: string system)) = []"
  by (simp add: run_defs first_outcome_def pending_pids_def)

text \<open>
  C8, as amended. A message whose identifier is a number other than 0 and has no entry in
  the pending-command map of the session makes \<open>_onMessage\<close> throw a bare \<open>Error\<close>;
  nothing is emitted and nothing changes.
\<close>

theorem unmatched_reply_throws:
  assumes "msg_id object = Some i" "i \<noteq> 0" "\<not> Map_has (callbacks (heap s ! r)) i"
  shows "CDPSession_onMessage env r object s = (Some (Thrown []), s)"
  using assms
  by (simp add: CDPSession_onMessage_def matching_def truthy_def Map_has_def Map_get_def)

theorem unmatched_reply_throws_witness:
  "\<not> Map_has (callbacks (heap (new_Connection :: unit system) ! 0)) 5
 \<and> CDPSession_onMessage quiet_env 0
     \<lparr>msg_id = Some 5, msg_method = None, msg_params = None, msg_result = Some (),
      msg_error = None, msg_sessionId = None\<rparr> (new_Connection :: unit system)
   = (Some (Thrown []), new_Connection)"
proof -
  have h: "\<not> Map_has (callbacks (heap (new_Connection :: unit system) ! 0)) 5"
    by (simp add: new_Connection_def new_CDPSession_def Map_has_def)
  show ?thesis
    using h unmatched_reply_throws [of "\<lparr>msg_id = Some 5, msg_method = None, msg_params = None,
      msg_result = Some (), msg_error = None, msg_sessionId = None\<rparr>" 5
      "new_Connection :: unit system" 0 quiet_env]
    by simp
qed

text \<open>
  C8 as stated fails for the identifier 0, which is falsy: the message has an identifier
  and no pending command matches it, yet nothing is thrown and the message is emitted as
  an event to the subscriber of its method name.
\<close>

theorem zero_identifier_is_emitted:
  "CDPSession_onMessage quiet_env 0
     \<lparr>msg_id = Some 0, msg_method = Some ''Debugger.paused'', msg_params = None,
      msg_result = Some (), msg_error = None, msg_sessionId = None\<rparr>
     (run quiet_env [Subscribe 0 (EvMethod (Some ''Debugger.paused'')) 7] (new_Connection :: unit system))
   = (None,
      (run quiet_env [Subscribe 0 (EvMethod (Some ''Debugger.paused'')) 7] (new_Connection :: unit system))
        \<lparr>delivered := [(0, 7, EvMethod (Some ''Debugger.paused''), None)]\<rparr>)"
  by (simp add: run_defs)

text \<open>
  C9. A message without identifier is emitted to the handlers registered under its method
  name, in registration order, each receiving the parameter object of the message; no
  session object changes (so no pending-command map does) and nothing is settled. The
  handlers that run are the registered ones up to the first that throws, all of them when
  none throws.
\<close>

theorem event_is_emitted:
  assumes "msg_id object = None"
  shows "case CDPSession_onMessage env r object s of (res, s') \<Rightarrow>
      delivered s' = delivered s @ map (\<lambda>h. (r, h, EvMethod (msg_method object), msg_params object))
                        (called env s (subscribers (heap s ! r) (EvMethod (msg_method object))))
    \<and> called env s (subscribers (heap s ! r) (EvMethod (msg_method object)))
        = take (length (called env s (subscribers (heap s ! r) (EvMethod (msg_method object)))))
            (subscribers (heap s ! r) (EvMethod (msg_method object)))
    \<and> (quiet env \<longrightarrow>
        delivered s' = delivered s @ map (\<lambda>h. (r, h, EvMethod (msg_method object), msg_params object))
                        (subscribers (heap s ! r) (EvMethod (msg_method object))))
    \<and> heap s' = heap s \<and> settled s' = settled s \<and> promises s' = promises s
    \<and> sessions s' = sessions s \<and> lastId s' = lastId s"
proof -
  let ?n = "EvMethod (msg_method object)"
  let ?hs = "subscribers (heap s ! r) ?n"
  have eq: "CDPSession_onMessage env r object s = emit env r ?n (msg_params object) s"
    using assms by (simp add: CDPSession_onMessage_def matching_def truthy_def)
  have dl: "delivered (snd (emit env r ?n (msg_params object) s))
      = delivered s @ map (\<lambda>h. (r, h, ?n, msg_params object)) (called env s ?hs)"
    by (rule emit_delivered)
  have tk: "called env s ?hs = take (length (called env s ?hs)) ?hs"
    unfolding called_def by (rule call_handlers_take)
  show ?thesis
    using dl tk by (simp add: eq case_prod_unfold emit_fields called_quiet)
qed

text \<open>
  Scenario C of the specification: the subscriber of \<open>Debugger.paused\<close> receives the
  parameters of the event.
\<close>

theorem event_is_emitted_witness:
  "msg_id \<lparr>msg_id = None, msg_method = Some ''Debugger.paused'', msg_params = Some ''reason: other'',
      msg_result = None, msg_error = None, msg_sessionId = None\<rparr> = None
 \<and> quiet (quiet_env :: string environment)
 \<and> delivered (snd (CDPSession_onMessage quiet_env 0
      \<lparr>msg_id = None, msg_method = Some ''Debugger.paused'', msg_params = Some ''reason: other'',
       msg_result = None, msg_error = None, msg_sessionId = None\<rparr>
      (run quiet_env [Subscribe 0 (EvMethod (Some ''Debugger.paused'')) 7,
         Subscribe 0 (EvMethod (Some ''Debugger.resumed'')) 8, SendOrDie 0 ''Debugger.enable'' None]
         (new_Connection :: string system))))
   = [(0, 7, EvMethod (Some ''Debugger.paused''), Some ''reason: other'')]
 \<and> pending_pids (snd (CDPSession_onMessage quiet_env 0
      \<lparr>msg_id = None, msg_method = Some ''Debugger.paused'', msg_params = Some ''reason: other'',
       msg_result = None, msg_error = None, msg_sessionId = None\<rparr>
      (run quiet_env [Subscribe 0 (EvMethod (Some ''Debugger.paused'')) 7,
         Subscribe 0 (EvMethod (Some ''Debugger.resumed'')) 8, SendOrDie 0 ''Debugger.enable'' None]
         (new_Connection :: string system)))) = [0]"
proof -
  let ?m = "\<lparr>msg_id = None, msg_method = Some ''Debugger.paused'', msg_params = Some ''reason: other'',
      msg_result = None, msg_error = None, msg_sessionId = None\<rparr> :: string ProtocolResponse"
  let ?s = "run quiet_env [Subscribe 0 (EvMethod (Some ''Debugger.paused'')) 7,
         Subscribe 0 (EvMethod (Some ''Debugger.resumed'')) 8, SendOrDie 0 ''Debugger.enable'' None]
         (new_Connection :: string system)"
  have n: "msg_id ?m = None" by simp
  have d: "delivered ?s = []" and h: "pending_pids ?s = [0]"
    and sub: "subscribers (heap ?s ! 0) (EvMethod (Some ''Debugger.paused'')) = [7]"
    by (simp_all add: run_defs pending_pids_def)
  have q: "quiet (quiet_env :: string environment)"
    by (simp add: quiet_def quiet_env_def)
  note t = event_is_emitted [where object = ?m and env = quiet_env and r = 0 and s = ?s, OF n,
      unfolded case_prod_unfold]
  from t q
  have "delivered (snd (CDPSession_onMessage quiet_env 0 ?m ?s))
          = delivered ?s @ map (\<lambda>h. (0, h, EvMethod (msg_method ?m), msg_params ?m))
                        (subscribers (heap ?s ! 0) (EvMethod (msg_method ?m)))"
    and "heap (snd (CDPSession_onMessage quiet_env 0 ?m ?s)) = heap ?s"
    by blast+
  then have "delivered (snd (CDPSession_onMessage quiet_env 0 ?m ?s))
          = [(0, 7, EvMethod (Some ''Debugger.paused''), Some ''reason: other'')]"
    and "pending_pids (snd (CDPSession_onMessage quiet_env 0 ?m ?s)) = [0]"
    using d h sub by (simp_all add: pending_pids_def)
  with n q show ?thesis by blast
qed

section \<open>Routing of inbound messages\<close>

text \<open>
  C3, as amended. \<open>_onMessage\<close> of the connection looks the session up under the session
  identifier of the message, an absent identifier counting as the empty one. When nothing
  is registered there it fails with \<open>Unknown session id: \<close> followed by the identifier as
  the message has it (\<open>undefined\<close> when absent), and changes nothing; otherwise it hands
  the message to that session. The empty identifier resolves to the root session as long as
  no call has disposed the root session, created a session under the empty identifier, or
  closed the connection.
\<close>

theorem onMessage_routing:
  "(Connection_session s (or_empty (msg_sessionId object)) = None \<longrightarrow>
      Connection_onMessage env object s =
        (Some (Thrown (''Unknown session id: '' @ js_string (msg_sessionId object))), s))
 \<and> (\<forall>r. Connection_session s (or_empty (msg_sessionId object)) = Some r \<longrightarrow>
      Connection_onMessage env object s = CDPSession_onMessage env r object s)
 \<and> (list_all keeps_root evs \<longrightarrow>
      (let t = run env evs new_Connection in
         Connection_session t [] = Some (browserSession t)
       \<and> (msg_sessionId object = None \<or> msg_sessionId object = Some [] \<longrightarrow>
            Connection_onMessage env object t = CDPSession_onMessage env (browserSession t) object t)))"
proof (intro conjI impI allI)
  assume "list_all keeps_root evs"
  with rooted_new_Connection have "rooted (run env evs new_Connection)"
    by (rule rooted_run)
  then show "let t = run env evs new_Connection in
         Connection_session t [] = Some (browserSession t)
       \<and> (msg_sessionId object = None \<or> msg_sessionId object = Some [] \<longrightarrow>
            Connection_onMessage env object t = CDPSession_onMessage env (browserSession t) object t)"
    by (auto simp: rooted_def Let_def Connection_session_def Connection_onMessage_def or_empty_def)
qed (simp_all add: Connection_onMessage_def Connection_session_def)

text \<open>
  Scenario D of the specification, and an event without session identifier after a child
  session was created and disposed: the first fails with \<open>Unknown session id: ghost\<close>, the
  second is handled by the root session.
\<close>

theorem onMessage_routing_witness:
  "Connection_session (new_Connection :: unit system) ''ghost'' = None
 \<and> Connection_onMessage quiet_env
      \<lparr>msg_id = None, msg_method = Some ''Debugger.paused'', msg_params = None,
       msg_result = None, msg_error = None, msg_sessionId = Some ''ghost''\<rparr>
      (new_Connection :: unit system)
    = (Some (Thrown ''Unknown session id: ghost''), new_Connection)
 \<and> list_all keeps_root ([CreateSession ''A1'', SessionDispose 1] :: unit event list)
 \<and> Connection_onMessage quiet_env
      \<lparr>msg_id = None, msg_method = Some ''Target.targetCreated'', msg_params = None,
       msg_result = None, msg_error = None, msg_sessionId = None\<rparr>
      (run quiet_env [CreateSession ''A1'', SessionDispose 1] (new_Connection :: unit system))
    = CDPSession_onMessage quiet_env 0
      \<lparr>msg_id = None, msg_method = Some ''Target.targetCreated'', msg_params = None,
       msg_result = None, msg_error = None, msg_sessionId = None\<rparr>
      (run quiet_env [CreateSession ''A1'', SessionDispose 1] (new_Connection :: unit system))"
proof -
  let ?ghost = "\<lparr>msg_id = None, msg_method = Some ''Debugger.paused'', msg_params = None,
       msg_result = None, msg_error = None, msg_sessionId = Some ''ghost''\<rparr> :: unit ProtocolResponse"
  let ?ev = "\<lparr>msg_id = None, msg_method = Some ''Target.targetCreated'', msg_params = None,
       msg_result = None, msg_error = None, msg_sessionId = None\<rparr> :: unit ProtocolResponse"
  let ?evs = "[CreateSession ''A1'', SessionDispose 1] :: unit event list"
  let ?t = "run quiet_env ?evs (new_Connection :: unit system)"
  have none: "Connection_session (new_Connection :: unit system) (or_empty (msg_sessionId ?ghost)) = None"
    by (simp add: Connection_session_def new_Connection_def Map_get_def or_empty_def)
  have keeps: "list_all keeps_root ?evs" by simp
  have root: "browserSession ?t = 0" by (simp add: run_defs)
  have "Connection_onMessage quiet_env ?ghost (new_Connection :: unit system)
      = (Some (Thrown (''Unknown session id: '' @ js_string (msg_sessionId ?ghost))), new_Connection)"
    using onMessage_routing [where s = "new_Connection :: unit system" and object = ?ghost
        and env = quiet_env and evs = "[]"] none
    by blast
  moreover have "Connection_onMessage quiet_env ?ev ?t = CDPSession_onMessage quiet_env (browserSession ?t) ?ev ?t"
    using onMessage_routing [where s = "new_Connection :: unit system" and object = ?ev
        and env = quiet_env and evs = ?evs] keeps
    unfolding Let_def by simp
  ultimately show ?thesis
    using none keeps root by (simp add: js_string_def or_empty_def)
qed

text \<open>
  C3 as stated fails once the root session has been disposed, which nothing prevents: a
  message without session identifier then resolves to no session at all and fails with
  \<open>Unknown session id: undefined\<close>.
\<close>

theorem disposed_root_is_unknown:
  "Connection_onMessage quiet_env
     \<lparr>msg_id = None, msg_method = Some ''Target.targetCreated'', msg_params = None,
      msg_result = None, msg_error = None, msg_sessionId = None\<rparr>
     (run quiet_env [SessionDispose 0] (new_Connection :: unit system))
   = (Some (Thrown ''Unknown session id: undefined''),
      run quiet_env [SessionDispose 0] (new_Connection :: unit system))"
  by (simp add: run_defs)

section \<open>Command identifiers\<close>

text \<open>
  C4, as amended. In every state the connection reaches, by any calls, as long as at most
  \<open>2 ^ 53\<close> identifiers have been issued: the identifiers issued by \<open>_send\<close> are
  \<open>1, 2, 3, \<dots>\<close> in the order of the calls, hence strictly increasing and without
  repetition.
\<close>

theorem issued_strictly_increasing:
  "let s = run env evs new_Connection in
     length (issued s) \<le> 2 ^ 53 \<longrightarrow>
       issued s = map int [1..<Suc (length (issued s))]
     \<and> sorted_wrt (<) (issued s) \<and> distinct (issued s)"
proof -
  let ?s = "run env evs new_Connection"
  let ?n = "length (issued ?s)"
  have c: "counted ?s" using counted_new_Connection by (rule counted_run)
  have eq: "issued ?s = map int [1..<Suc ?n]" if "?n \<le> 2 ^ 53"
  proof -
    have "map (\<lambda>k. min (int k) (2 ^ 53)) [1..<Suc ?n] = map int [1..<Suc ?n]"
      using that by (intro map_cong refl) (auto simp: min_def)
    with c show ?thesis by (simp only: counted_def)
  qed
  have "sorted_wrt (<) (map int [1..<Suc ?n])"
    by (simp add: sorted_wrt_map del: upt_Suc)
  moreover have "distinct (map int [1..<Suc ?n])"
    by (simp add: distinct_map del: upt_Suc)
  ultimately show ?thesis
    using eq by (simp only: Let_def) metis
qed

theorem issued_strictly_increasing_witness:
  "length (issued (run quiet_env [SendOrDie 0 ''Target.getTargets'' None, CreateSession ''A1'',
      SendOrDie 1 ''Debugger.enable'' None, Detach 1] (new_Connection :: unit system))) \<le> 2 ^ 53
 \<and> issued (run quiet_env [SendOrDie 0 ''Target.getTargets'' None, CreateSession ''A1'',
      SendOrDie 1 ''Debugger.enable'' None, Detach 1] (new_Connection :: unit system)) = [1, 2, 3]"
proof -
  let ?s = "run quiet_env [SendOrDie 0 ''Target.getTargets'' None, CreateSession ''A1'',
      SendOrDie 1 ''Debugger.enable'' None, Detach 1] (new_Connection :: unit system)"
  have n: "length (issued ?s) = 3"
    by (simp add: run_defs)
  then have le: "length (issued ?s) \<le> 2 ^ 53" by simp
  with issued_strictly_increasing [of quiet_env "[SendOrDie 0 ''Target.getTargets'' None,
      CreateSession ''A1'', SendOrDie 1 ''Debugger.enable'' None, Detach 1] :: unit event list"]
  have "issued ?s = map int [1..<Suc (length (issued ?s))]"
    unfolding Let_def by blast
  then have "issued ?s = [1, 2, 3]"
    unfolding n by (simp add: upt_rec)
  with le show ?thesis by blast
qed

text \<open>
  C4 as stated fails at the end of the exact range of a JavaScript number. After
  \<open>2 ^ 53 + 1\<close> commands on the root session the last two identifiers are both
  \<open>2 ^ 53\<close>.
\<close>

theorem issued_repeats_beyond_2_53:
  "\<not> distinct (issued (run quiet_env (replicate (2 ^ 53 + 1) (SendOrDie 0 ''Runtime.enable'' None))
       (new_Connection :: unit system)))"
proof -
  let ?s = "run quiet_env (replicate (2 ^ 53 + 1) (SendOrDie 0 ''Runtime.enable'' None))
       (new_Connection :: unit system)"
  let ?f = "\<lambda>k. min (int k) (2 ^ 53)"
  have n: "length (issued ?s) = 2 ^ 53 + 1"
  proof -
    have "length (issued ?s) = length (issued (new_Connection :: unit system)) + (2 ^ 53 + 1)"
      by (rule root_sends) (simp_all add: new_Connection_def new_CDPSession_def)
    then show ?thesis by (simp add: new_Connection_def)
  qed
  have "counted ?s" using counted_new_Connection by (rule counted_run)
  then have eq: "issued ?s = map ?f [1..<Suc (2 ^ 53 + 1)]"
    unfolding counted_def n by (rule conjunct1)
  have "issued ?s ! (2 ^ 53 - 1) = issued ?s ! (2 ^ 53)"
    unfolding eq by (simp del: upt_Suc add: nth_map nth_upt)
  moreover have "(2 ^ 53 - 1 :: nat) < length (issued ?s)" "(2 ^ 53 :: nat) < length (issued ?s)"
    unfolding n by simp_all
  moreover have "(2 ^ 53 - 1 :: nat) \<noteq> 2 ^ 53" by simp
  ultimately show ?thesis
    unfolding distinct_conv_nth by blast
qed

section \<open>Closing a session\<close>

text \<open>
  A command that is pending on a session of a reachable state has a pending promise, and the
  close handling of the session rejects that promise.
\<close>

lemma pending_rejected_by_close:
  assumes "wf s" "r < length (heap s)" "(i, cb) \<in> set (callbacks (heap s ! r))"
  shows "promise_state s (Plain (cb_promise cb)) = Pending"
    and "promise_state (snd (CDPSession_onClose env r s)) (Plain (cb_promise cb)) =
           Rejected (JsError (cb_from cb) (''Protocol error ('' @ cb_method cb @ ''): Target closed.''))"
proof -
  let ?rej = "(\<lambda>(i, callback). (cb_promise callback, Reject (JsError (cb_from callback)
                      (''Protocol error ('' @ cb_method callback @ ''): Target closed.''))))
              :: int \<times> ProtocolCallback \<Rightarrow> pid \<times> 'a outcome"
  let ?cbs = "callbacks (heap s ! r)"
  have none: "map_of (settled s) (cb_promise cb) = None"
    using wf_pending_unsettled [OF assms] by (simp add: first_outcome_def)
  then show "promise_state s (Plain (cb_promise cb)) = Pending"
    by (simp add: first_outcome_def)
  have "distinct (map fst (map ?rej ?cbs))"
    using wf_pending_distinct [OF assms(1,2)] by (simp add: comp_def case_prod_unfold)
  moreover have "?rej (i, cb) \<in> set (map ?rej ?cbs)"
    using assms(3) by (simp only: set_map) (rule imageI)
  ultimately have "map_of (map ?rej ?cbs) (cb_promise cb) = Some (Reject (JsError (cb_from cb)
                      (''Protocol error ('' @ cb_method cb @ ''): Target closed.'')))"
    by (intro map_of_is_SomeI) simp_all
  with none show "promise_state (snd (CDPSession_onClose env r s)) (Plain (cb_promise cb)) =
           Rejected (JsError (cb_from cb) (''Protocol error ('' @ cb_method cb @ ''): Target closed.''))"
    by (simp add: onClose_fields first_outcome_def map_add_def)
qed

text \<open>
  C6. The close handling of a session rejects every pending command, in the order in which
  they were sent, with the \<open>Error\<close> captured when it was sent and the message
  \<open>Protocol error (<method>): Target closed.\<close> for the method stored with it; afterwards
  the pending-command map of the session is empty, its back-reference is cleared, and
  \<open>Disconnected\<close> has been emitted: its subscribers have been notified in registration
  order up to the first that throws, every one of them when none throws (and then the close
  handling returns normally). In a reachable state each of these promises was pending
  before and is rejected with that error after.
\<close>

theorem onClose_rejects_pending:
  assumes "r < length (heap s)"
  shows "let s' = snd (CDPSession_onClose env r s) in
     settled s' = settled s @ map (\<lambda>(i, callback). (cb_promise callback, Reject (JsError (cb_from callback)
                      (''Protocol error ('' @ cb_method callback @ ''): Target closed.''))))
                   (callbacks (heap s ! r))
   \<and> heap s' = (heap s)[r := (heap s ! r)\<lparr>callbacks := [], connection := False\<rparr>]
   \<and> callbacks (heap s' ! r) = []
   \<and> CDPSession_isClosed s' r
   \<and> delivered s' = delivered s @ map (\<lambda>h. (r, h, Disconnected, None))
                        (called env s (subscribers (heap s ! r) Disconnected))
   \<and> called env s (subscribers (heap s ! r) Disconnected)
       = take (length (called env s (subscribers (heap s ! r) Disconnected)))
           (subscribers (heap s ! r) Disconnected)
   \<and> (quiet env \<longrightarrow>
        fst (CDPSession_onClose env r s) = None
      \<and> delivered s' = delivered s @ map (\<lambda>h. (r, h, Disconnected, None)) (subscribers (heap s ! r) Disconnected))
   \<and> (wf s \<longrightarrow> (\<forall>(i, callback) \<in> set (callbacks (heap s ! r)).
          promise_state s (Plain (cb_promise callback)) = Pending
        \<and> promise_state s' (Plain (cb_promise callback)) = Rejected (JsError (cb_from callback)
                      (''Protocol error ('' @ cb_method callback @ ''): Target closed.''))))"
proof -
  let ?s' = "snd (CDPSession_onClose env r s)"
  let ?hs = "subscribers (heap s ! r) Disconnected"
  have log: "settled ?s' = settled s @ map (\<lambda>(i, callback). (cb_promise callback, Reject (JsError (cb_from callback)
                      (''Protocol error ('' @ cb_method callback @ ''): Target closed.''))))
                   (callbacks (heap s ! r))"
    by (simp add: onClose_fields)
  have hp: "heap ?s' = (heap s)[r := (heap s ! r)\<lparr>callbacks := [], connection := False\<rparr>]"
    by (simp add: onClose_fields)
  have dl: "delivered ?s' = delivered s @ map (\<lambda>h. (r, h, Disconnected, None)) (called env s ?hs)"
    using assms
    by (simp add: CDPSession_onClose_def emit_def called_def Let_def subscribers_def case_prod_unfold)
  have tk: "called env s ?hs = take (length (called env s ?hs)) ?hs"
    unfolding called_def by (rule call_handlers_take)
  have qt: "fst (CDPSession_onClose env r s) = None
      \<and> delivered ?s' = delivered s @ map (\<lambda>h. (r, h, Disconnected, None)) ?hs" if "quiet env"
    using that dl by (simp add: onClose_quiet called_quiet)
  have cl: "callbacks (heap ?s' ! r) = []" "CDPSession_isClosed ?s' r"
    using assms by (simp_all add: hp CDPSession_isClosed_def)
  have st: "\<forall>(i, callback) \<in> set (callbacks (heap s ! r)).
          promise_state s (Plain (cb_promise callback)) = Pending
        \<and> promise_state ?s' (Plain (cb_promise callback)) = Rejected (JsError (cb_from callback)
                      (''Protocol error ('' @ cb_method callback @ ''): Target closed.''))" if "wf s"
    using pending_rejected_by_close [OF that assms] by blast
  from log hp cl dl tk qt st show ?thesis
    unfolding Let_def by blast
qed

text \<open>
  The close handling of the child session of scenario B, which has one command pending and
  one subscriber of \<open>Disconnected\<close>.
\<close>

theorem onClose_rejects_pending_witness:
  "1 < length (heap (run quiet_env [CreateSession ''A1'', SendOrDie 1 ''Debugger.enable'' None,
          Subscribe 1 Disconnected 3] (new_Connection :: unit system)))
 \<and> wf (run quiet_env [CreateSession ''A1'', SendOrDie 1 ''Debugger.enable'' None,
          Subscribe 1 Disconnected 3] (new_Connection :: unit system))
 \<and> quiet (quiet_env :: unit environment)
 \<and> settled (snd (CDPSession_onClose quiet_env 1 (run quiet_env [CreateSession ''A1'',
          SendOrDie 1 ''Debugger.enable'' None, Subscribe 1 Disconnected 3] (new_Connection :: unit system))))
    = [(0, Reject (JsError 0 ''Protocol error (Debugger.enable): Target closed.''))]
 \<and> delivered (snd (CDPSession_onClose quiet_env 1 (run quiet_env [CreateSession ''A1'',
          SendOrDie 1 ''Debugger.enable'' None, Subscribe 1 Disconnected 3] (new_Connection :: unit system))))
    = [(1, 3, Disconnected, None)]
 \<and> promise_state (snd (CDPSession_onClose quiet_env 1 (run quiet_env [CreateSession ''A1'',
          SendOrDie 1 ''Debugger.enable'' None, Subscribe 1 Disconnected 3] (new_Connection :: unit system))))
      (Plain 0) = Rejected (JsError 0 ''Protocol error (Debugger.enable): Target closed.'')"
proof -
  let ?s = "run quiet_env [CreateSession ''A1'', SendOrDie 1 ''Debugger.enable'' None,
          Subscribe 1 Disconnected 3] (new_Connection :: unit system)"
  let ?s' = "snd (CDPSession_onClose quiet_env 1 ?s)"
  let ?cb = "\<lparr>cb_promise = 0, cb_from = 0, cb_method = ''Debugger.enable''\<rparr>"
  have v: "1 < length (heap ?s)" by (simp add: run_defs)
  have w: "wf ?s" using wf_new_Connection by (rule wf_run)
  have q: "quiet (quiet_env :: unit environment)"
    by (simp add: quiet_def quiet_env_def)
  have cbs: "callbacks (heap ?s ! 1) = [(1, ?cb)]" and log: "settled ?s = []"
    and dl: "delivered ?s = []" and sub: "subscribers (heap ?s ! 1) Disconnected = [3]"
    by (simp_all add: run_defs)
  note t = onClose_rejects_pending [OF v, where env = quiet_env, unfolded Let_def]
  from t have "settled ?s' = settled ?s @ map (\<lambda>(i, callback). (cb_promise callback, Reject (JsError (cb_from callback)
                      (''Protocol error ('' @ cb_method callback @ ''): Target closed.''))))
                   (callbacks (heap ?s ! 1))"
    by (rule conjunct1)
  then have "settled ?s' = [(0, Reject (JsError 0 ''Protocol error (Debugger.enable): Target closed.''))]"
    unfolding cbs log by simp
  moreover from t q have "delivered ?s' = delivered ?s @ map (\<lambda>h. (1, h, Disconnected, None))
                   (subscribers (heap ?s ! 1) Disconnected)"
    by blast
  then have "delivered ?s' = [(1, 3, Disconnected, None)]"
    unfolding dl sub by simp
  moreover from t w have "\<forall>(i, callback) \<in> set (callbacks (heap ?s ! 1)).
          promise_state ?s (Plain (cb_promise callback)) = Pending
        \<and> promise_state ?s' (Plain (cb_promise callback)) = Rejected (JsError (cb_from callback)
                      (''Protocol error ('' @ cb_method callback @ ''): Target closed.''))"
    by blast
  then have "promise_state ?s' (Plain 0)
      = Rejected (JsError 0 ''Protocol error (Debugger.enable): Target closed.'')"
    unfolding cbs by simp
  ultimately show ?thesis using v w q by blast
qed

section \<open>The best-effort send\<close>

text \<open>
  In a reachable state the promise that \<open>sendOrDie\<close> is about to create has not been
  settled, and the command that \<open>sendOrDie\<close> registers is in the pending-command map.
\<close>

lemma wf_next_promise_unsettled:
  assumes "wf s"
  shows "first_outcome s (promises s) = None"
proof (rule ccontr)
  assume "first_outcome s (promises s) \<noteq> None"
  then have "promises s \<in> fst ` set (settled s)"
    by (auto simp: first_outcome_def dest: map_of_SomeD intro: rev_image_eqI)
  then have "promises s \<in> set (all_pids s)"
    by (simp add: all_pids_def)
  with assms have "promises s < promises s" by (rule wf_bound)
  then show False by simp
qed

lemma update_mem: "(k, v) \<in> set (AList.update k v al)"
  by (induction al) auto

text \<open>
  When neither \<open>JSON.stringify\<close> nor \<open>send\<close> of the transport throws, \<open>_send\<close>,
  \<open>sendOrDie\<close> and \<open>send\<close> return.
\<close>

lemma send_returns:
  assumes "\<not> stringify_throws env \<lparr>cmd_id = js_increment (lastId s), cmd_method = method,
             cmd_params = default_params ps,
             cmd_sessionId = (if sessionId (heap s ! r) \<noteq> [] then Some (sessionId (heap s ! r)) else None)\<rparr>"
    and "\<not> transport_throws env (length (issued s))"
  shows "\<not> isl (fst (CDPSession_send env r method ps s))"
  using assms
  by (simp add: CDPSession_send_def CDPSession_sendOrDie_def Connection_send_def Let_def)

text \<open>
  C7, as amended. In every state the connection reaches, on every session: \<open>send\<close> does
  what \<open>sendOrDie\<close> does. When \<open>sendOrDie\<close> returns a promise \<open>p\<close>, \<open>send\<close>
  returns \<open>p.catch(e => null)\<close>, which is never rejected: it is fulfilled with null at
  once on a closed session, and on an open session it is pending, becomes fulfilled with
  null when the close handling of the session runs or when a reply with the identifier of
  the command reports an error, and becomes fulfilled with the result of the reply
  otherwise. When \<open>_send\<close> throws, which it does exactly when \<open>JSON.stringify\<close> or
  \<open>send\<close> of the transport throws, \<open>sendOrDie\<close> and \<open>send\<close> throw the same to the
  caller; this happens on an open session only, the identifier is used up, and no promise
  or pending entry is created.
\<close>

theorem send_never_rejects:
  "let s = run (env :: 'j environment) evs new_Connection in
   \<forall>r < length (heap s).
     (\<not> stringify_throws env \<lparr>cmd_id = js_increment (lastId s), cmd_method = method,
           cmd_params = default_params ps,
           cmd_sessionId = (if sessionId (heap s ! r) \<noteq> [] then Some (sessionId (heap s ! r)) else None)\<rparr>
      \<and> \<not> transport_throws env (length (issued s))
      \<longrightarrow> \<not> isl (fst (CDPSession_send env r method ps s)))
   \<and> (case CDPSession_sendOrDie env r method ps s of
        (Inl e, s1) \<Rightarrow>
          CDPSession_send env r method ps s = (Inl e, s1)
        \<and> \<not> CDPSession_isClosed s r
        \<and> (e = StringifyThrew \<or> e = TransportThrew)
        \<and> lastId s1 = js_increment (lastId s)
        \<and> promises s1 = promises s \<and> settled s1 = settled s \<and> heap s1 = heap s
      | (Inr p, s1) \<Rightarrow>
          CDPSession_send env r method ps s = (Inr (CatchNull p), s1)
        \<and> (\<forall>t :: 'j system. promise_state t (CatchNull p) =
                (case promise_state t (Plain p) of
                   Pending \<Rightarrow> Pending | Fulfilled v \<Rightarrow> Fulfilled v | Rejected e \<Rightarrow> Fulfilled Null))
        \<and> (\<forall>(t :: 'j system) e. promise_state t (CatchNull p) \<noteq> Rejected e)
        \<and> (CDPSession_isClosed s r \<longrightarrow>
             promise_state s1 (Plain p) = Rejected (JsError (errors s)
               (''Protocol error ('' @ method @
                ''): Session closed. Most likely the target has been closed.''))
           \<and> promise_state s1 (CatchNull p) = Fulfilled Null)
        \<and> (\<not> CDPSession_isClosed s r \<longrightarrow>
             promise_state s1 (CatchNull p) = Pending
           \<and> promise_state (snd (CDPSession_onClose env r s1)) (Plain p) = Rejected (JsError (errors s)
               (''Protocol error ('' @ method @ ''): Target closed.''))
           \<and> promise_state (snd (CDPSession_onClose env r s1)) (CatchNull p) = Fulfilled Null
           \<and> (\<forall>object. msg_id object = Some (lastId s1) \<longrightarrow>
                promise_state (snd (CDPSession_onMessage env r object s1)) (CatchNull p) =
                  (case msg_error object of
                     Some err \<Rightarrow> Fulfilled Null
                   | None \<Rightarrow> Fulfilled (of_field (msg_result object))))))"
proof -
  let ?s = "run env evs new_Connection"
  have w: "wf ?s" using wf_new_Connection by (rule wf_run)
  have "counted ?s" using counted_new_Connection by (rule counted_run)
  then have pos: "0 \<le> lastId ?s" by (simp add: counted_def)
  have fresh: "first_outcome ?s (promises ?s) = None"
    using w by (rule wf_next_promise_unsettled)
  have catch: "promise_state t (CatchNull p) =
                (case promise_state t (Plain p) of
                   Pending \<Rightarrow> Pending | Fulfilled v \<Rightarrow> Fulfilled v | Rejected e \<Rightarrow> Fulfilled Null)"
    for t :: "'j system" and p
    by (simp split: option.splits outcome.splits)
  have never: "promise_state t (CatchNull p) \<noteq> Rejected e" for t :: "'j system" and p e
    by (simp split: option.splits outcome.splits)
  have main: "case CDPSession_sendOrDie env r method ps ?s of
        (Inl e, s1) \<Rightarrow>
          CDPSession_send env r method ps ?s = (Inl e, s1)
        \<and> \<not> CDPSession_isClosed ?s r
        \<and> (e = StringifyThrew \<or> e = TransportThrew)
        \<and> lastId s1 = js_increment (lastId ?s)
        \<and> promises s1 = promises ?s \<and> settled s1 = settled ?s \<and> heap s1 = heap ?s
      | (Inr p, s1) \<Rightarrow>
          CDPSession_send env r method ps ?s = (Inr (CatchNull p), s1)
        \<and> (\<forall>t :: 'j system. promise_state t (CatchNull p) =
                (case promise_state t (Plain p) of
                   Pending \<Rightarrow> Pending | Fulfilled v \<Rightarrow> Fulfilled v | Rejected e \<Rightarrow> Fulfilled Null))
        \<and> (\<forall>(t :: 'j system) e. promise_state t (CatchNull p) \<noteq> Rejected e)
        \<and> (CDPSession_isClosed ?s r \<longrightarrow>
             promise_state s1 (Plain p) = Rejected (JsError (errors ?s)
               (''Protocol error ('' @ method @
                ''): Session closed. Most likely the target has been closed.''))
           \<and> promise_state s1 (CatchNull p) = Fulfilled Null)
        \<and> (\<not> CDPSession_isClosed ?s r \<longrightarrow>
             promise_state s1 (CatchNull p) = Pending
           \<and> promise_state (snd (CDPSession_onClose env r s1)) (Plain p) = Rejected (JsError (errors ?s)
               (''Protocol error ('' @ method @ ''): Target closed.''))
           \<and> promise_state (snd (CDPSession_onClose env r s1)) (CatchNull p) = Fulfilled Null
           \<and> (\<forall>object. msg_id object = Some (lastId s1) \<longrightarrow>
                promise_state (snd (CDPSession_onMessage env r object s1)) (CatchNull p) =
                  (case msg_error object of
                     Some err \<Rightarrow> Fulfilled Null
                   | None \<Rightarrow> Fulfilled (of_field (msg_result object)))))"
    if r: "r < length (heap ?s)" for r
  proof -
    define s1 where "s1 = snd (CDPSession_sendOrDie env r method ps ?s)"
    show ?thesis
    proof (cases rule: sendOrDie_cases [where s = ?s and r = r and env = env and m = "method" and ps = ps])
      case closed
      note f = sendOrDie_closed_fields [OF closed, where env = env and m = "method" and ps = ps,
          folded s1_def]
      have eq: "CDPSession_sendOrDie env r method ps ?s = (Inr (promises ?s), s1)"
        using f(6) by (simp add: s1_def prod_eq_iff)
      have "first_outcome s1 (promises ?s) = Some (Reject (JsError (errors ?s)
                 (''Protocol error ('' @ method @
                  ''): Session closed. Most likely the target has been closed.'')))"
        using fresh by (simp add: first_outcome_def f(2) map_add_def)
      then have rej: "promise_state s1 (Plain (promises ?s)) = Rejected (JsError (errors ?s)
                 (''Protocol error ('' @ method @
                  ''): Session closed. Most likely the target has been closed.''))"
        and nul: "promise_state s1 (CatchNull (promises ?s)) = Fulfilled Null"
        by simp_all
      have cl: "CDPSession_isClosed ?s r"
        using closed by (simp add: CDPSession_isClosed_def)
      have sd: "CDPSession_send env r method ps ?s = (Inr (CatchNull (promises ?s)), s1)"
        by (simp add: CDPSession_send_def eq)
      show ?thesis
        unfolding eq prod.case sum.case
        by (intro conjI allI impI) (insert cl, (rule sd rej nul catch never | blast)+)
    next
      case thrown
      note f = sendOrDie_thrown_fields [OF thrown, folded s1_def]
      from thrown have "isl (fst (CDPSession_sendOrDie env r method ps ?s))"
        by (rule sendOrDie_thrown_fields(6))
      then obtain e where eq: "CDPSession_sendOrDie env r method ps ?s = (Inl e, s1)"
        by (cases "CDPSession_sendOrDie env r method ps ?s") (auto simp: isl_def s1_def)
      have e: "e = StringifyThrew \<or> e = TransportThrew"
        using eq thrown(1)
        by (auto simp: CDPSession_sendOrDie_def Connection_send_def Let_def split: if_splits)
      have op: "\<not> CDPSession_isClosed ?s r"
        using thrown(1) by (simp add: CDPSession_isClosed_def)
      have sd: "CDPSession_send env r method ps ?s = (Inl e, s1)"
        by (simp add: CDPSession_send_def eq)
      show ?thesis
        unfolding eq prod.case sum.case
        by (intro conjI allI impI) (rule sd op e f(1,2,3,5))+
    next
      case sent
      let ?i = "js_increment (lastId ?s)"
      let ?cb = "\<lparr>cb_promise = promises ?s, cb_from = errors ?s, cb_method = method\<rparr>"
      note f = sendOrDie_open_fields [OF sent, folded s1_def]
      have eq: "CDPSession_sendOrDie env r method ps ?s = (Inr (promises ?s), s1)"
        using f(6) by (simp add: s1_def prod_eq_iff)
      have w1: "wf s1" unfolding s1_def using w r by (rule wf_sendOrDie)
      have r1: "r < length (heap s1)" using r by (simp add: s1_def sendOrDie_fields)
      have cbs: "callbacks (heap s1 ! r) = Map_set (callbacks (heap ?s ! r)) ?i ?cb"
        using r by (simp add: f(1))
      have mem: "(?i, ?cb) \<in> set (callbacks (heap s1 ! r))"
        unfolding cbs Map_set_def by (rule update_mem)
      have none: "map_of (settled s1) (promises ?s) = None"
        using fresh by (simp add: first_outcome_def f(2))
      then have pend: "promise_state s1 (CatchNull (promises ?s)) = Pending"
        by (simp add: first_outcome_def)
      have "promise_state (snd (CDPSession_onClose env r s1)) (Plain (cb_promise ?cb)) =
             Rejected (JsError (cb_from ?cb) (''Protocol error ('' @ cb_method ?cb @ ''): Target closed.''))"
        using w1 r1 mem by (rule pending_rejected_by_close(2))
      then have close: "promise_state (snd (CDPSession_onClose env r s1)) (Plain (promises ?s)) =
             Rejected (JsError (errors ?s) (''Protocol error ('' @ method @ ''): Target closed.''))"
        by simp
      then have close': "promise_state (snd (CDPSession_onClose env r s1)) (CatchNull (promises ?s)) = Fulfilled Null"
        by (simp only: catch pstate.case)
      have reply: "promise_state (snd (CDPSession_onMessage env r object s1)) (CatchNull (promises ?s)) =
                    (case msg_error object of
                       Some err \<Rightarrow> Fulfilled Null
                     | None \<Rightarrow> Fulfilled (of_field (msg_result object)))"
        if "msg_id object = Some (lastId s1)" for object
      proof -
        have i: "lastId s1 = ?i" by (simp add: f(3))
        have "0 < ?i" using pos by (simp add: js_increment_def)
        moreover have "map_of (callbacks (heap s1 ! r)) ?i = Some ?cb"
          by (simp add: cbs Map_set_def update_conv')
        ultimately have m: "matching (callbacks (heap s1 ! r)) (msg_id object) = Some (?i, ?cb)"
          using that by (simp add: matching_Some i)
        show ?thesis
          using none
          by (simp add: matched_reply [OF m] first_outcome_def map_add_def split: option.splits)
      qed
      have op: "\<not> CDPSession_isClosed ?s r"
        using sent(1) by (simp add: CDPSession_isClosed_def)
      have sd: "CDPSession_send env r method ps ?s = (Inr (CatchNull (promises ?s)), s1)"
        by (simp add: CDPSession_send_def eq)
      show ?thesis
        unfolding eq prod.case sum.case
        by (intro conjI allI impI)
          (insert op, (rule sd pend close close' reply catch never | assumption | blast)+)
    qed
  qed
  have ret: "\<not> isl (fst (CDPSession_send env r method ps ?s))"
    if "\<not> stringify_throws env \<lparr>cmd_id = js_increment (lastId ?s), cmd_method = method,
           cmd_params = default_params ps,
           cmd_sessionId = (if sessionId (heap ?s ! r) \<noteq> [] then Some (sessionId (heap ?s ! r)) else None)\<rparr>
      \<and> \<not> transport_throws env (length (issued ?s))" for r
    using that by (intro send_returns) simp_all
  show ?thesis
    unfolding Let_def by (intro allI impI conjI) (erule ret, erule main)
qed

text \<open>
  On the root session of a new connection, with nothing throwing: \<open>send\<close> returns a
  promise that is fulfilled with null when the reply reports an error, and when the
  session is closed instead. On the root session of a disposed connection it is fulfilled
  with null at once.
\<close>

theorem send_never_rejects_witness:
  "0 < length (heap (run quiet_env [] (new_Connection :: unit system)))
 \<and> \<not> CDPSession_isClosed (run quiet_env [] (new_Connection :: unit system)) 0
 \<and> fst (CDPSession_send quiet_env 0 ''Runtime.enable'' None
       (run quiet_env [] (new_Connection :: unit system)))
     = Inr (CatchNull 0)
 \<and> promise_state (snd (CDPSession_onMessage quiet_env 0
       \<lparr>msg_id = Some 1, msg_method = None, msg_params = None, msg_result = None,
        msg_error = Some \<lparr>pe_message = ''boom'', pe_data = ()\<rparr>, msg_sessionId = None\<rparr>
       (snd (CDPSession_send quiet_env 0 ''Runtime.enable'' None
          (run quiet_env [] (new_Connection :: unit system))))))
     (CatchNull 0) = Fulfilled Null
 \<and> promise_state (snd (CDPSession_onClose quiet_env 0
       (snd (CDPSession_send quiet_env 0 ''Runtime.enable'' None
          (run quiet_env [] (new_Connection :: unit system))))))
     (CatchNull 0) = Fulfilled Null
 \<and> CDPSession_isClosed (run quiet_env [Dispose] (new_Connection :: unit system)) 0
 \<and> promise_state (snd (CDPSession_send quiet_env 0 ''Runtime.enable'' None
       (run quiet_env [Dispose] (new_Connection :: unit system))))
     (CatchNull 0) = Fulfilled Null"
proof -
  let ?s = "run quiet_env [] (new_Connection :: unit system)"
  let ?d = "run quiet_env [Dispose] (new_Connection :: unit system)"
  let ?m = "\<lparr>msg_id = Some 1, msg_method = None, msg_params = None, msg_result = None,
        msg_error = Some \<lparr>pe_message = ''boom'', pe_data = ()\<rparr>, msg_sessionId = None\<rparr>
        :: unit ProtocolResponse"
  define s1 where "s1 = snd (CDPSession_sendOrDie quiet_env 0 ''Runtime.enable'' None ?s)"
  define d1 where "d1 = snd (CDPSession_sendOrDie quiet_env 0 ''Runtime.enable'' None ?d)"
  have v: "0 < length (heap ?s)" and o: "\<not> CDPSession_isClosed ?s 0"
    and vd: "0 < length (heap ?d)" and c: "CDPSession_isClosed ?d 0"
    by (simp_all add: run_defs CDPSession_isClosed_def)
  have eq: "CDPSession_sendOrDie quiet_env 0 ''Runtime.enable'' None ?s = (Inr 0, s1)"
    and eqd: "CDPSession_sendOrDie quiet_env 0 ''Runtime.enable'' None ?d = (Inr 0, d1)"
    and i: "msg_id ?m = Some (lastId s1)"
    by (simp_all add: s1_def d1_def run_defs)
  note t = send_never_rejects [of quiet_env "[]" "''Runtime.enable''" None, unfolded Let_def, rule_format, OF v, unfolded eq sum.case prod.case]
  note u = send_never_rejects [of quiet_env "[Dispose]" "''Runtime.enable''" None, unfolded Let_def, rule_format, OF vd, unfolded eqd sum.case prod.case]
  from t have sd: "CDPSession_send quiet_env 0 ''Runtime.enable'' None ?s = (Inr (CatchNull 0), s1)"
    by blast
  from u have sdd: "CDPSession_send quiet_env 0 ''Runtime.enable'' None ?d = (Inr (CatchNull 0), d1)"
    by blast
  from t o have "promise_state (snd (CDPSession_onClose quiet_env 0 s1)) (CatchNull 0) = Fulfilled Null"
    by blast
  then have cls: "promise_state (snd (CDPSession_onClose quiet_env 0
       (snd (CDPSession_send quiet_env 0 ''Runtime.enable'' None ?s)))) (CatchNull 0) = Fulfilled Null"
    by (simp only: sd snd_conv)
  from t o i have "promise_state (snd (CDPSession_onMessage quiet_env 0 ?m s1)) (CatchNull 0) =
       (case msg_error ?m of Some err \<Rightarrow> Fulfilled Null | None \<Rightarrow> Fulfilled (of_field (msg_result ?m)))"
    by blast
  then have "promise_state (snd (CDPSession_onMessage quiet_env 0 ?m s1)) (CatchNull 0) = Fulfilled Null"
    by simp
  then have rpl: "promise_state (snd (CDPSession_onMessage quiet_env 0 ?m
       (snd (CDPSession_send quiet_env 0 ''Runtime.enable'' None ?s)))) (CatchNull 0) = Fulfilled Null"
    by (simp only: sd snd_conv)
  from u c have "promise_state d1 (CatchNull 0) = Fulfilled Null"
    by blast
  then have dsp: "promise_state (snd (CDPSession_send quiet_env 0 ''Runtime.enable'' None ?d))
       (CatchNull 0) = Fulfilled Null"
    by (simp only: sdd snd_conv)
  have ret: "fst (CDPSession_send quiet_env 0 ''Runtime.enable'' None ?s) = Inr (CatchNull 0)"
    by (simp only: sd fst_conv)
  from v o ret rpl cls c dsp show ?thesis
    by (intro conjI)
qed

text \<open>
  C7 as stated fails where \<open>_send\<close> throws: the call stands outside the promise that
  \<open>sendOrDie\<close> constructs, so the exception leaves \<open>sendOrDie\<close> and \<open>send\<close>
  before \<open>catch\<close> is attached. The root session of a new connection sends a command whose
  parameters \<open>JSON.stringify\<close> rejects (a cyclic object, a \<open>BigInt\<close>): \<open>send\<close>
  throws, no promise is created, nothing reaches the transport, and the identifier 1 is
  used up.
\<close>

theorem send_throws_synchronously:
  "CDPSession_send (quiet_env\<lparr>stringify_throws := \<lambda>m. cmd_params m = Params ''cyclic''\<rparr>)
     0 ''Runtime.evaluate'' (Some ''cyclic'') (new_Connection :: string system)
   = (Inl StringifyThrew, new_Connection\<lparr>lastId := 1, issued := [1]\<rparr>)
 \<and> promises (new_Connection\<lparr>lastId := 1, issued := [1]\<rparr> :: string system) = 0
 \<and> transport_sent (new_Connection\<lparr>lastId := 1, issued := [1]\<rparr> :: string system) = []"
  by (simp add: run_defs)

section \<open>Session identifiers that are reused\<close>

text \<open>
  C10. When \<open>createSession\<close> is called with an identifier under which a session object is
  registered, the registry afterwards holds the new object under that identifier; the old
  object is untouched (its pending commands are neither removed nor rejected, its
  back-reference stays, so it is open if it was), and if it was registered under no other
  identifier, no identifier resolves to it any more.
\<close>

theorem createSession_replaces_silently:
  assumes "Connection_session s sid = Some old" "old < length (heap s)"
  shows "case Connection_createSession sid s of (new, s') \<Rightarrow>
      new \<noteq> old \<and> Connection_session s' sid = Some new
    \<and> heap s' ! old = heap s ! old
    \<and> settled s' = settled s
    \<and> (connection (heap s ! old) \<longrightarrow> \<not> CDPSession_isClosed s' old)
    \<and> ((\<forall>k. k \<noteq> sid \<longrightarrow> Connection_session s k \<noteq> Some old) \<longrightarrow>
         (\<forall>k. Connection_session s' k \<noteq> Some old))"
  using assms
  by (auto simp: Connection_createSession_def Connection_session_def Map_get_def Map_set_def
      update_conv' nth_append CDPSession_isClosed_def Let_def)

theorem createSession_replaces_silently_witness:
  "Connection_session (run quiet_env [CreateSession ''A1'', SendOrDie 1 ''Debugger.enable'' None]
      (new_Connection :: unit system)) ''A1'' = Some 1
 \<and> Connection_session (snd (Connection_createSession ''A1''
      (run quiet_env [CreateSession ''A1'', SendOrDie 1 ''Debugger.enable'' None]
      (new_Connection :: unit system)))) ''A1'' = Some 2
 \<and> \<not> CDPSession_isClosed (snd (Connection_createSession ''A1''
      (run quiet_env [CreateSession ''A1'', SendOrDie 1 ''Debugger.enable'' None]
      (new_Connection :: unit system)))) 1
 \<and> pending_pids (snd (Connection_createSession ''A1''
      (run quiet_env [CreateSession ''A1'', SendOrDie 1 ''Debugger.enable'' None]
      (new_Connection :: unit system)))) = [0]
 \<and> settled (snd (Connection_createSession ''A1''
      (run quiet_env [CreateSession ''A1'', SendOrDie 1 ''Debugger.enable'' None]
      (new_Connection :: unit system)))) = []"
proof -
  let ?s = "run quiet_env [CreateSession ''A1'', SendOrDie 1 ''Debugger.enable'' None]
      (new_Connection :: unit system)"
  let ?s' = "snd (Connection_createSession ''A1'' ?s)"
  have reg: "Connection_session ?s ''A1'' = Some 1" and v: "1 < length (heap ?s)"
    and len: "fst (Connection_createSession ''A1'' ?s) = 2"
    and op: "connection (heap ?s ! 1)" and log: "settled ?s = []"
    and hp: "heap ?s ! 0 = new_CDPSession []"
      "callbacks (heap ?s ! 1) = [(1, \<lparr>cb_promise = 0, cb_from = 0, cb_method = ''Debugger.enable''\<rparr>)]"
    by (simp_all add: run_defs Connection_session_def)
  from createSession_replaces_silently [OF reg v]
  have "Connection_session ?s' ''A1'' = Some (fst (Connection_createSession ''A1'' ?s))"
    and "heap ?s' ! 1 = heap ?s ! 1"
    and "settled ?s' = settled ?s"
    and "connection (heap ?s ! 1) \<longrightarrow> \<not> CDPSession_isClosed ?s' 1"
    by (simp_all add: case_prod_unfold)
  moreover have "pending_pids ?s' = [0]"
    by (simp add: run_defs pending_pids_def)
  ultimately show ?thesis
    using reg len op log by simp
qed

end
